theory Spec2Isabelle
  imports Main
begin

section \<open>The queue binding and lifecycle registry (src/lib/sqs.service.ts)\<close>

text \<open>
  The service owns two insertion-ordered maps (queue name to consumer entry, queue name to
  producer) and talks to collaborators outside the repository: the poller and sender
  libraries, the handler discovery, the logger, the backend client and the runtime's
  JSON serialiser. The model keeps the service's own control flow and records every call
  on a collaborator in a log; what a collaborator does (whether a start or stop call
  throws, whether a factory call throws, what the serialiser returns) is a parameter.
  \<open>addListener\<close> and the logger are taken to return; the discovery has returned its two
  lists before the model starts.
\<close>

subsection \<open>Values handed in from outside\<close>

type_synonym QueueName = string

text \<open>Opaque identities: a backend client, a discovered method, a provider instance.\<close>

datatype SQSClient = SQSClient nat

datatype Fn = Fn nat

datatype Instance = Instance nat

text \<open>\<open>handler.bind(instance)\<close>: a function together with its receiver.\<close>

datatype BoundFn = Bind Fn Instance

text \<open>
  A thrown value: \<open>new Error(message)\<close> of the service itself, the runtime's TypeError on
  a member access through \<open>undefined\<close>, or whatever a collaborator throws.
\<close>

datatype error = Error string | TypeError | Thrown string

record StopOptions =
  abort :: "bool option"

text \<open>
  The shape \<open>{ sqs, queueUrl }\<close> that the service reads off a consumer or a producer
  instance. The service tests the handle for absence (\<open>if (!sqs)\<close>), so it is optional.
\<close>

record QueueSettings =
  sqs :: "SQSClient option"
  queueUrl :: string

text \<open>The argument of \<open>Consumer.create\<close>: the settings plus the two callback slots.\<close>

record ConsumerCreateOptions = QueueSettings +
  handleMessage :: "BoundFn option"
  handleMessageBatch :: "BoundFn option"

text \<open>
  A poller instance: what it was created with and the listeners added since. An
  instance that a factory returns always has a client: the one of its options, or one
  the factory makes.
\<close>

record Consumer = ConsumerCreateOptions +
  listeners :: "(string \<times> BoundFn) list"

type_synonym Producer = QueueSettings

text \<open>
  Modelled from the spec: the declarations of ./sqs.types (SqsOptions and its consumer and
  producer entries, SqsConsumerMapValues, the two handler metadata types, Message) are not
  among the sources. The records below carry the fields the service reads: a consumer
  declaration is \<open>{name, stopOptions?, ...consumerOptions}\<close>, a producer declaration is
  \<open>{name, ...producerOptions}\<close>, a discovered binding is \<open>{meta, discoveredMethod}\<close>
  flattened to its queue name, batch flag (or event name), handler and owner instance.
  Line 48 takes every remaining key of a consumer declaration into \<open>consumerOptions\<close>;
  no source at hand keeps a declaration from carrying a callback key of its own, so the
  remaining keys are those of the factory's argument, callbacks included.
\<close>

record SqsConsumerOptions =
  co_name :: QueueName
  co_stopOptions :: "StopOptions option"
  consumerOptions :: ConsumerCreateOptions

record SqsProducerOptions =
  po_name :: QueueName
  producerOptions :: QueueSettings

record SqsOptions =
  opt_consumers :: "SqsConsumerOptions list option"
  opt_producers :: "SqsProducerOptions list option"
  opt_globalStopOptions :: "StopOptions option"

record MessageHandler =
  mh_name :: QueueName
  mh_batch :: "bool option"
  mh_handler :: Fn
  mh_instance :: Instance

record EventHandler =
  eh_name :: QueueName
  eh_eventName :: string
  eh_handler :: Fn
  eh_instance :: Instance

record SqsConsumerMapValues =
  entry_instance :: Consumer
  stopOptions :: "StopOptions option"

subsection \<open>The insertion-ordered Map of the runtime\<close>

text \<open>
  A JavaScript \<open>Map\<close> iterates in insertion order; \<open>set\<close> on a present key replaces the
  value in place, on an absent key appends.
\<close>

definition Map_has :: "('k \<times> 'v) list \<Rightarrow> 'k \<Rightarrow> bool" where
  "Map_has m k = (map_of m k \<noteq> None)"

definition Map_get :: "('k \<times> 'v) list \<Rightarrow> 'k \<Rightarrow> 'v option" where
  "Map_get m k = map_of m k"

definition Map_set :: "('k \<times> 'v) list \<Rightarrow> 'k \<Rightarrow> 'v \<Rightarrow> ('k \<times> 'v) list" where
  "Map_set m k v =
     (if Map_has m k then map (\<lambda>(k', v'). if k' = k then (k', v) else (k', v')) m
      else m @ [(k, v)])"

definition Map_values :: "('k \<times> 'v) list \<Rightarrow> 'v list" where
  "Map_values m = map snd m"

definition Map_keys :: "('k \<times> 'v) list \<Rightarrow> 'k list" where
  "Map_keys m = map fst m"

subsection \<open>The service state and the log of calls on collaborators\<close>

datatype event =
    Logger_warn string
  | Consumer_create QueueName ConsumerCreateOptions
  | Consumer_addListener QueueName string BoundFn
  | Producer_create QueueName QueueSettings
  | Consumer_start Consumer
  | Consumer_stop Consumer "StopOptions option"

record SqsService =
  options :: SqsOptions
  consumers :: "(QueueName \<times> SqsConsumerMapValues) list"
  producers :: "(QueueName \<times> Producer) list"
  globalStopOptions :: "StopOptions option"
  calls :: "event list"

text \<open>The constructor: both maps empty, \<open>globalStopOptions\<close> not yet assigned, nothing called.\<close>

definition new_SqsService :: "SqsOptions \<Rightarrow> SqsService" where
  "new_SqsService opts =
     \<lparr>options = opts, consumers = [], producers = [], globalStopOptions = None, calls = []\<rparr>"

definition emit :: "event list \<Rightarrow> SqsService \<Rightarrow> SqsService" where
  "emit es st = st\<lparr>calls := calls st @ es\<rparr>"

text \<open>
  What the libraries do: whether a factory call throws on its argument (both factories
  validate their options), which client a factory makes for an instance whose options
  carry none, and whether a start or stop call throws.
\<close>

record env =
  Consumer_create_throws :: "ConsumerCreateOptions \<Rightarrow> error option"
  Producer_create_throws :: "QueueSettings \<Rightarrow> error option"
  new_SQSClient :: "string \<Rightarrow> SQSClient"
  start_throws :: "Consumer \<Rightarrow> error option"
  stop_throws :: "Consumer \<Rightarrow> StopOptions option \<Rightarrow> error option"

subsection \<open>Loops\<close>

text \<open>
  \<open>xs.forEach(f)\<close> and \<open>for (const x of xs) f(x)\<close> over a state: the first callback that
  throws ends the loop, and the state it left behind stays.
\<close>

fun forEach :: "('a \<Rightarrow> 's \<Rightarrow> error option \<times> 's) \<Rightarrow> 'a list \<Rightarrow> 's \<Rightarrow> error option \<times> 's" where
  "forEach f [] s = (None, s)"
| "forEach f (x # xs) s =
     (case f x s of
        (Some e, s') \<Rightarrow> (Some e, s')
      | (None, s') \<Rightarrow> forEach f xs s')"

subsection \<open>onModuleInit\<close>

text \<open>
  What \<open>Consumer.create(options)\<close> returns when it does not throw: a fresh poller with
  no listener, on the client of the options or on one of its own making.
\<close>

definition Consumer_create_instance :: "env \<Rightarrow> ConsumerCreateOptions \<Rightarrow> Consumer" where
  "Consumer_create_instance ev a =
     \<lparr>sqs = Some (case sqs a of Some client \<Rightarrow> client | None \<Rightarrow> new_SQSClient ev (queueUrl a)),
      queueUrl = queueUrl a, handleMessage = handleMessage a,
      handleMessageBatch = handleMessageBatch a, listeners = []\<rparr>"

text \<open>What \<open>Producer.create(options)\<close> returns when it does not throw.\<close>

definition Producer_create_instance :: "env \<Rightarrow> QueueSettings \<Rightarrow> Producer" where
  "Producer_create_instance ev a =
     \<lparr>sqs = Some (case sqs a of Some client \<Rightarrow> client | None \<Rightarrow> new_SQSClient ev (queueUrl a)),
      queueUrl = queueUrl a\<rparr>"

text \<open>
  The argument built at lines 60 to 69: every remaining key of the declaration spread,
  then the callback key selected by \<open>isBatchHandler\<close> set to the handler bound to its
  owner. The other callback key stays as the declaration has it.
\<close>

definition createOptions :: "ConsumerCreateOptions \<Rightarrow> MessageHandler \<Rightarrow> ConsumerCreateOptions" where
  "createOptions consumerOpts metadata =
     (let isBatchHandler = (mh_batch metadata = Some True);
          bound = Bind (mh_handler metadata) (mh_instance metadata)
      in if isBatchHandler
         then consumerOpts\<lparr>handleMessageBatch := Some bound\<rparr>
         else consumerOpts\<lparr>handleMessage := Some bound\<rparr>)"

text \<open>
  The listener bound at line 76: the event handler's function, with the MESSAGE handler's
  owner instance as receiver.
\<close>

definition listenerOf :: "MessageHandler \<Rightarrow> EventHandler \<Rightarrow> string \<times> BoundFn" where
  "listenerOf metadata eventMetadata =
     (eh_eventName eventMetadata, Bind (eh_handler eventMetadata) (mh_instance metadata))"

text \<open>
  The loop of lines 72 to 79 on one poller: \<open>addListener\<close> appends. The test
  \<open>if (eventMetadata)\<close> holds for every element, each being an object that \<open>filter\<close>
  has already destructured.
\<close>

primrec addListeners :: "MessageHandler \<Rightarrow> EventHandler list \<Rightarrow> Consumer \<Rightarrow> Consumer" where
  "addListeners metadata [] consumer = consumer"
| "addListeners metadata (eventMetadata # rest) consumer =
     addListeners metadata rest
       (consumer\<lparr>listeners := listeners consumer @ [listenerOf metadata eventMetadata]\<rparr>)"

definition addListener_calls :: "QueueName \<Rightarrow> MessageHandler \<Rightarrow> EventHandler list \<Rightarrow> event list" where
  "addListener_calls name metadata eventsMetadata =
     map (\<lambda>eventMetadata.
            Consumer_addListener name (fst (listenerOf metadata eventMetadata))
              (snd (listenerOf metadata eventMetadata)))
         eventsMetadata"

text \<open>
  The callback of the first \<open>forEach\<close> (lines 47 to 81). A factory call that throws
  has been made, and ends the callback with what it threw.
\<close>

definition consumer_callback ::
  "env \<Rightarrow> MessageHandler list \<Rightarrow> EventHandler list \<Rightarrow> SqsConsumerOptions \<Rightarrow> SqsService
     \<Rightarrow> error option \<times> SqsService" where
  "consumer_callback ev messageHandlers eventHandlers opts st =
     (let name = co_name opts in
      if Map_has (consumers st) name
      then (Some (Error (''Consumer already exists: '' @ name)), st)
      else
        (case find (\<lambda>h. mh_name h = name) messageHandlers of
           None \<Rightarrow> (None, emit [Logger_warn (''No metadata found for: '' @ name)] st)
         | Some metadata \<Rightarrow>
             (let args = createOptions (consumerOptions opts) metadata in
              case Consumer_create_throws ev args of
                Some e \<Rightarrow> (Some e, emit [Consumer_create name args] st)
              | None \<Rightarrow>
                  (let consumer = Consumer_create_instance ev args;
                       eventsMetadata = filter (\<lambda>e. eh_name e = name) eventHandlers;
                       consumer' = addListeners metadata eventsMetadata consumer;
                       st' = emit (Consumer_create name args
                                   # addListener_calls name metadata eventsMetadata) st
                   in (None,
                       st'\<lparr>consumers :=
                             Map_set (consumers st') name
                               \<lparr>entry_instance = consumer',
                                stopOptions =
                                  (case co_stopOptions opts of
                                     Some s \<Rightarrow> Some s
                                   | None \<Rightarrow> globalStopOptions st')\<rparr>\<rparr>)))))"

text \<open>The callback of the second \<open>forEach\<close> (lines 83 to 91).\<close>

definition producer_callback ::
  "env \<Rightarrow> SqsProducerOptions \<Rightarrow> SqsService \<Rightarrow> error option \<times> SqsService" where
  "producer_callback ev opts st =
     (let name = po_name opts in
      if Map_has (producers st) name
      then (Some (Error (''Producer already exists: '' @ name)), st)
      else
        (case Producer_create_throws ev (producerOptions opts) of
           Some e \<Rightarrow> (Some e, emit [Producer_create name (producerOptions opts)] st)
         | None \<Rightarrow>
             (let producer = Producer_create_instance ev (producerOptions opts);
                  st' = emit [Producer_create name (producerOptions opts)] st
              in (None, st'\<lparr>producers := Map_set (producers st') name producer\<rparr>))))"

text \<open>The body of the start loop (lines 93 to 95).\<close>

definition start_callback :: "env \<Rightarrow> SqsConsumerMapValues \<Rightarrow> SqsService \<Rightarrow> error option \<times> SqsService" where
  "start_callback ev consumer st =
     (start_throws ev (entry_instance consumer), emit [Consumer_start (entry_instance consumer)] st)"

text \<open>\<open>xs?.forEach(f)\<close>: nothing to do when the list is absent.\<close>

definition forEach_opt ::
  "('a \<Rightarrow> 's \<Rightarrow> error option \<times> 's) \<Rightarrow> 'a list option \<Rightarrow> 's \<Rightarrow> error option \<times> 's" where
  "forEach_opt f xs s = (case xs of None \<Rightarrow> (None, s) | Some ys \<Rightarrow> forEach f ys s)"

text \<open>
  Lines 39 to 91 of \<open>onModuleInit\<close>, given what the discovery returned: the default stop
  options, then the two \<open>forEach\<close> loops that build the registry. The result is the
  thrown error, if any, and the service as the run left it.
\<close>

definition construct ::
  "env \<Rightarrow> MessageHandler list \<Rightarrow> EventHandler list \<Rightarrow> SqsService
     \<Rightarrow> error option \<times> SqsService" where
  "construct ev messageHandlers eventHandlers st0 =
     (let st = st0\<lparr>globalStopOptions :=
                     (case opt_globalStopOptions (options st0) of
                        Some g \<Rightarrow> Some g
                      | None \<Rightarrow> Some \<lparr>abort = None\<rparr>)\<rparr>
      in case forEach_opt (consumer_callback ev messageHandlers eventHandlers)
                (opt_consumers (options st)) st of
           (Some e, st1) \<Rightarrow> (Some e, st1)
         | (None, st1) \<Rightarrow> forEach_opt (producer_callback ev) (opt_producers (options st1)) st1)"

text \<open>
  \<open>onModuleInit\<close>: the construction, then the start loop over the consumer map. The
  function is \<open>async\<close>; its thrown error is the rejection of the promise it returns.
\<close>

definition onModuleInit ::
  "env \<Rightarrow> MessageHandler list \<Rightarrow> EventHandler list \<Rightarrow> SqsService \<Rightarrow> error option \<times> SqsService" where
  "onModuleInit ev messageHandlers eventHandlers st0 =
     (case construct ev messageHandlers eventHandlers st0 of
        (Some e, st2) \<Rightarrow> (Some e, st2)
      | (None, st2) \<Rightarrow> forEach (start_callback ev) (Map_values (consumers st2)) st2)"

subsection \<open>onModuleDestroy\<close>

definition stop_callback :: "env \<Rightarrow> SqsConsumerMapValues \<Rightarrow> SqsService \<Rightarrow> error option \<times> SqsService" where
  "stop_callback ev consumer st =
     (stop_throws ev (entry_instance consumer) (stopOptions consumer),
      emit [Consumer_stop (entry_instance consumer) (stopOptions consumer)] st)"

definition onModuleDestroy :: "env \<Rightarrow> SqsService \<Rightarrow> error option \<times> SqsService" where
  "onModuleDestroy ev st = forEach (stop_callback ev) (Map_values (consumers st)) st"

subsection \<open>The control plane\<close>

text \<open>
  \<open>getProducerQueueSize\<close> and \<open>send\<close> are plain functions: each either throws to
  its caller before any call on a collaborator, or makes exactly one such call as its last
  step and returns what that call returns. Their model returns the thrown error (\<open>Inl\<close>)
  or the call made (\<open>Inr\<close>).

  \<open>purgeQueue\<close>, \<open>getQueueAttributes\<close>, \<open>changeMessageVisibility\<close>,
  \<open>deleteMessage\<close> and \<open>deleteMessageBatch\<close> are \<open>async\<close> functions: a call of one
  never throws to its caller but returns a promise. A throw in the body before the first
  \<open>await\<close> rejects that promise; a body that reaches \<open>await sqs.send(command)\<close> gives a
  promise that settles as that one backend call does.
\<close>

record SqsMessage =
  MessageId :: "string option"
  ReceiptHandle :: "string option"

record DeleteEntry =
  Id :: "string option"
  EntryReceiptHandle :: "string option"

datatype command =
    PurgeQueueCommand string
  | GetQueueAttributesCommand string "string list"
  | ChangeMessageVisibilityCommand string string int
  | DeleteMessageCommand string string
  | DeleteMessageBatchCommand string "DeleteEntry list"

text \<open>
  A message body is a string (\<open>typeof body === 'string'\<close>) or any other value; the type of
  the other values is left open.
\<close>

datatype 't body = Str string | Val 't

record 't Message =
  body :: "'t body"
  groupId :: "string option"
  attributes :: "(string \<times> string) list option"

datatype ('t, 'z) call =
    SqsSend SQSClient command
  | ProducerSend Producer "('t, 'z) Message_scheme list"
  | ProducerQueueSize Producer

datatype 'm payload = One 'm | Many "'m list"

datatype ('t, 'z) promise = Rejected error | Awaits "('t, 'z) call"

text \<open>
  The call of an \<open>async\<close> function whose body, run up to its first \<open>await\<close>, throws
  or reaches the awaited call: the caller gets a promise (\<open>Inr\<close>), never a throw.
\<close>

definition async :: "error + ('t, 'z) call \<Rightarrow> error + ('t, 'z) promise" where
  "async run = Inr (case run of Inl e \<Rightarrow> Rejected e | Inr c \<Rightarrow> Awaits c)"

text \<open>
  The expression \<open>consumers.get(name)?.instance ?? producers.get(name)\<close>, read as
  \<open>{ sqs, queueUrl }\<close> (lines 109, 180, 199 and 220).
\<close>

definition resolve_instance :: "SqsService \<Rightarrow> QueueName \<Rightarrow> QueueSettings option" where
  "resolve_instance st name =
     (case Map_get (consumers st) name of
        Some entry \<Rightarrow> Some (QueueSettings.truncate (entry_instance entry))
      | None \<Rightarrow> Map_get (producers st) name)"

text \<open>\<open>getQueueInfo\<close> (lines 104 to 121).\<close>

definition getQueueInfo :: "SqsService \<Rightarrow> QueueName \<Rightarrow> error + SQSClient \<times> string" where
  "getQueueInfo st name =
     (if \<not> Map_has (consumers st) name \<and> \<not> Map_has (producers st) name
      then Inl (Error (''Consumer/Producer does not exist: '' @ name))
      else
        (case resolve_instance st name of
           None \<Rightarrow> Inl TypeError
         | Some info \<Rightarrow>
             (case sqs info of
                None \<Rightarrow> Inl (Error ''SQS instance does not exist'')
              | Some client \<Rightarrow> Inr (client, queueUrl info))))"

definition purgeQueue :: "SqsService \<Rightarrow> QueueName \<Rightarrow> error + ('t, 'z) promise" where
  "purgeQueue st name =
     async (case getQueueInfo st name of
              Inl e \<Rightarrow> Inl e
            | Inr (client, url) \<Rightarrow> Inr (SqsSend client (PurgeQueueCommand url)))"

text \<open>\<open>getQueueAttributes\<close> resolves to the \<open>Attributes\<close> of the response of its call.\<close>

definition getQueueAttributes :: "SqsService \<Rightarrow> QueueName \<Rightarrow> error + ('t, 'z) promise" where
  "getQueueAttributes st name =
     async (case getQueueInfo st name of
              Inl e \<Rightarrow> Inl e
            | Inr (client, url) \<Rightarrow> Inr (SqsSend client (GetQueueAttributesCommand url [''All''])))"

definition getProducerQueueSize :: "SqsService \<Rightarrow> QueueName \<Rightarrow> error + ('t, 'z) call" where
  "getProducerQueueSize st name =
     (if \<not> Map_has (producers st) name
      then Inl (Error (''Producer does not exist: '' @ name))
      else
        (case Map_get (producers st) name of
           None \<Rightarrow> Inl TypeError
         | Some producer \<Rightarrow> Inr (ProducerQueueSize producer)))"

text \<open>
  The body of the \<open>map\<close> in \<open>send\<close> (lines 155 to 165). \<open>JSON.stringify\<close> belongs to
  the runtime and is a parameter: it may throw, and it returns a string or a non-string
  (\<open>undefined\<close>).
\<close>

definition serialize ::
  "('t \<Rightarrow> error + 't body) \<Rightarrow> ('t, 'z) Message_scheme \<Rightarrow> error + ('t, 'z) Message_scheme" where
  "serialize JSON_stringify message =
     (case body message of
        Str s \<Rightarrow> Inr (message\<lparr>body := Str s\<rparr>)
      | Val v \<Rightarrow>
          (case JSON_stringify v of
             Inl e \<Rightarrow> Inl e
           | Inr b \<Rightarrow> Inr (message\<lparr>body := b\<rparr>)))"

text \<open>\<open>xs.map(f)\<close> with a callback that may throw: the first throw ends the map.\<close>

fun map_throwing :: "('a \<Rightarrow> error + 'b) \<Rightarrow> 'a list \<Rightarrow> error + 'b list" where
  "map_throwing f [] = Inr []"
| "map_throwing f (x # xs) =
     (case f x of
        Inl e \<Rightarrow> Inl e
      | Inr y \<Rightarrow> (case map_throwing f xs of Inl e \<Rightarrow> Inl e | Inr ys \<Rightarrow> Inr (y # ys)))"

definition originalMessages :: "'m payload \<Rightarrow> 'm list" where
  "originalMessages pl = (case pl of Many ms \<Rightarrow> ms | One m \<Rightarrow> [m])"

definition send ::
  "('t \<Rightarrow> error + 't body) \<Rightarrow> SqsService \<Rightarrow> QueueName \<Rightarrow> ('t, 'z) Message_scheme payload
     \<Rightarrow> error + ('t, 'z) call" where
  "send JSON_stringify st name pl =
     (if \<not> Map_has (producers st) name
      then Inl (Error (''Producer does not exist: '' @ name))
      else
        (case map_throwing (serialize JSON_stringify) (originalMessages pl) of
           Inl e \<Rightarrow> Inl e
         | Inr messages \<Rightarrow>
             (case Map_get (producers st) name of
                None \<Rightarrow> Inl TypeError
              | Some producer \<Rightarrow> Inr (ProducerSend producer messages))))"

text \<open>
  The three consumer-only operations (lines 171 to 236) test the consumer map, resolve the
  instance as above and call \<open>sqs.send\<close> with no test of the handle.
\<close>

definition send_on :: "QueueSettings option \<Rightarrow> (string \<Rightarrow> command) \<Rightarrow> error + ('t, 'z) call" where
  "send_on target mk =
     (case target of
        None \<Rightarrow> Inl TypeError
      | Some info \<Rightarrow>
          (case sqs info of
             None \<Rightarrow> Inl TypeError
           | Some client \<Rightarrow> Inr (SqsSend client (mk (queueUrl info)))))"

definition changeMessageVisibility ::
  "SqsService \<Rightarrow> QueueName \<Rightarrow> string \<Rightarrow> int \<Rightarrow> error + ('t, 'z) promise" where
  "changeMessageVisibility st name receiptHandle visibilityTimeout =
     async (if \<not> Map_has (consumers st) name
            then Inl (Error (''Consumer does not exist: '' @ name))
            else send_on (resolve_instance st name)
                   (\<lambda>url. ChangeMessageVisibilityCommand url receiptHandle visibilityTimeout))"

definition deleteMessage :: "SqsService \<Rightarrow> QueueName \<Rightarrow> string \<Rightarrow> error + ('t, 'z) promise" where
  "deleteMessage st name receiptHandle =
     async (if \<not> Map_has (consumers st) name
            then Inl (Error (''Consumer does not exist: '' @ name))
            else send_on (resolve_instance st name)
                   (\<lambda>url. DeleteMessageCommand url receiptHandle))"

definition deleteMessageBatch ::
  "SqsService \<Rightarrow> QueueName \<Rightarrow> SqsMessage list \<Rightarrow> error + ('t, 'z) promise" where
  "deleteMessageBatch st name messages =
     async (if \<not> Map_has (consumers st) name
            then Inl (Error (''Consumer does not exist: '' @ name))
            else send_on (resolve_instance st name)
                   (\<lambda>url. DeleteMessageBatchCommand url
                            (map (\<lambda>message. \<lparr>Id = MessageId message,
                                              EntryReceiptHandle = ReceiptHandle message\<rparr>)
                                 messages)))"

section \<open>Notions used to state the properties\<close>

text \<open>A queue name has a matching message-handler binding (the \<open>find\<close> of line 53 succeeds).\<close>

definition handled :: "MessageHandler list \<Rightarrow> QueueName \<Rightarrow> bool" where
  "handled messageHandlers name = (find (\<lambda>h. mh_name h = name) messageHandlers \<noteq> None)"

text \<open>The declared lists, an absent list read as empty.\<close>

definition configured_consumers :: "SqsOptions \<Rightarrow> SqsConsumerOptions list" where
  "configured_consumers opts = (case opt_consumers opts of None \<Rightarrow> [] | Some cs \<Rightarrow> cs)"

definition configured_producers :: "SqsOptions \<Rightarrow> SqsProducerOptions list" where
  "configured_producers opts = (case opt_producers opts of None \<Rightarrow> [] | Some ps \<Rightarrow> ps)"

text \<open>The calls that processing one consumer declaration makes when it does not throw.\<close>

definition consumer_events ::
  "MessageHandler list \<Rightarrow> EventHandler list \<Rightarrow> SqsConsumerOptions \<Rightarrow> event list" where
  "consumer_events messageHandlers eventHandlers opts =
     (case find (\<lambda>h. mh_name h = co_name opts) messageHandlers of
        None \<Rightarrow> [Logger_warn (''No metadata found for: '' @ co_name opts)]
      | Some metadata \<Rightarrow>
          Consumer_create (co_name opts) (createOptions (consumerOptions opts) metadata)
          # addListener_calls (co_name opts) metadata
              (filter (\<lambda>e. eh_name e = co_name opts) eventHandlers))"

definition producer_events :: "SqsProducerOptions \<Rightarrow> event list" where
  "producer_events opts = [Producer_create (po_name opts) (producerOptions opts)]"

fun is_start :: "event \<Rightarrow> bool" where
  "is_start (Consumer_start c) = True"
| "is_start e = False"

definition stop_call :: "SqsConsumerMapValues \<Rightarrow> event" where
  "stop_call entry = Consumer_stop (entry_instance entry) (stopOptions entry)"

definition start_call :: "SqsConsumerMapValues \<Rightarrow> event" where
  "start_call entry = Consumer_start (entry_instance entry)"

text \<open>The consumer entry that line 80 stores for a declaration and its matched binding.\<close>

definition built_entry ::
  "env \<Rightarrow> StopOptions option \<Rightarrow> EventHandler list \<Rightarrow> SqsConsumerOptions \<Rightarrow> MessageHandler
     \<Rightarrow> SqsConsumerMapValues" where
  "built_entry ev g eventHandlers opts metadata =
     \<lparr>entry_instance =
        addListeners metadata (filter (\<lambda>e. eh_name e = co_name opts) eventHandlers)
          (Consumer_create_instance ev (createOptions (consumerOptions opts) metadata)),
      stopOptions = (case co_stopOptions opts of Some s \<Rightarrow> Some s | None \<Rightarrow> g)\<rparr>"

text \<open>A fresh service once line 40 has assigned the default stop options.\<close>

definition assigned :: "SqsOptions \<Rightarrow> SqsService" where
  "assigned opts =
     (new_SqsService opts)\<lparr>globalStopOptions :=
        (case opt_globalStopOptions opts of Some g \<Rightarrow> Some g | None \<Rightarrow> Some \<lparr>abort = None\<rparr>)\<rparr>"



text \<open>
  \<open>Consumer.create\<close> returns on the argument built for a declaration (a declaration
  without a binding has no factory call); \<open>Producer.create\<close> returns on a declaration.
\<close>

definition creates :: "env \<Rightarrow> MessageHandler list \<Rightarrow> SqsConsumerOptions \<Rightarrow> bool" where
  "creates ev messageHandlers opts =
     (case find (\<lambda>h. mh_name h = co_name opts) messageHandlers of
        None \<Rightarrow> True
      | Some metadata \<Rightarrow>
          Consumer_create_throws ev (createOptions (consumerOptions opts) metadata) = None)"

definition produces :: "env \<Rightarrow> SqsProducerOptions \<Rightarrow> bool" where
  "produces ev opts = (Producer_create_throws ev (producerOptions opts) = None)"

text \<open>
  Nothing stands in the way of the construction: no consumer name that has a binding is
  declared twice, no producer name is declared twice, and no factory call throws. A
  consumer declaration without a binding puts no condition here.
\<close>

definition unobstructed :: "env \<Rightarrow> MessageHandler list \<Rightarrow> SqsOptions \<Rightarrow> bool" where
  "unobstructed ev messageHandlers opts =
     (distinct (filter (handled messageHandlers) (map co_name (configured_consumers opts)))
      \<and> list_all (creates ev messageHandlers) (configured_consumers opts)
      \<and> distinct (map po_name (configured_producers opts))
      \<and> list_all (produces ev) (configured_producers opts))"

text \<open>The options with every consumer declaration of one queue name taken out.\<close>

definition without :: "QueueName \<Rightarrow> SqsOptions \<Rightarrow> SqsOptions" where
  "without n opts =
     opts\<lparr>opt_consumers := Some (filter (\<lambda>c. co_name c \<noteq> n) (configured_consumers opts))\<rparr>"

text \<open>
  Two services hold the same registry, and the second one's log is the first one's without
  the warnings about the queue name n.
\<close>

definition alike :: "QueueName \<Rightarrow> SqsService \<Rightarrow> SqsService \<Rightarrow> bool" where
  "alike n s s' =
     (consumers s' = consumers s \<and> producers s' = producers s
      \<and> globalStopOptions s' = globalStopOptions s
      \<and> calls s' = filter (\<lambda>e. e \<noteq> Logger_warn (''No metadata found for: '' @ n)) (calls s))"

text \<open>Every instance in the two maps has a client.\<close>

definition carries_clients :: "SqsService \<Rightarrow> bool" where
  "carries_clients st =
     (list_all (\<lambda>entry. sqs (entry_instance entry) \<noteq> None) (Map_values (consumers st))
      \<and> list_all (\<lambda>producer. sqs producer \<noteq> None) (Map_values (producers st)))"

section \<open>Example registries\<close>

text \<open>Libraries whose factory, start and stop calls never throw.\<close>

definition quiet :: env where
  "quiet =
     \<lparr>Consumer_create_throws = (\<lambda>a. None), Producer_create_throws = (\<lambda>a. None),
      new_SQSClient = (\<lambda>url. SQSClient 0),
      start_throws = (\<lambda>c. None), stop_throws = (\<lambda>c so. None)\<rparr>"

text \<open>A poller library whose stop call throws on the poller of client 1.\<close>

definition first_fails :: env where
  "first_fails =
     \<lparr>Consumer_create_throws = (\<lambda>a. None), Producer_create_throws = (\<lambda>a. None),
      new_SQSClient = (\<lambda>url. SQSClient 0),
      start_throws = (\<lambda>c. None),
      stop_throws = (\<lambda>c so. if sqs c = Some (SQSClient 1) then Some (Thrown ''stop failed'') else None)\<rparr>"

definition bare_service :: SqsService where
  "bare_service =
     new_SqsService \<lparr>opt_consumers = None, opt_producers = None, opt_globalStopOptions = None\<rparr>"

definition poller :: "nat \<Rightarrow> string \<Rightarrow> Consumer" where
  "poller h url =
     \<lparr>sqs = Some (SQSClient h), queueUrl = url, handleMessage = Some (Bind (Fn 0) (Instance 0)),
      handleMessageBatch = None, listeners = []\<rparr>"

text \<open>A registry whose only entry is a producer for the queue Q.\<close>

definition producer_only :: SqsService where
  "producer_only =
     bare_service\<lparr>producers := [(''Q'', \<lparr>sqs = Some (SQSClient 2), queueUrl = ''https://sqs/Q''\<rparr>)]\<rparr>"

text \<open>A registry whose only entry is a consumer for the queue Q.\<close>

definition consumer_only :: SqsService where
  "consumer_only =
     bare_service\<lparr>consumers :=
       [(''Q'', \<lparr>entry_instance = poller 1 ''https://sqs/Q'', stopOptions = None\<rparr>)]\<rparr>"

text \<open>Two consumers, registered in the order a, b.\<close>

definition two_pollers :: SqsService where
  "two_pollers =
     bare_service\<lparr>consumers :=
       [(''a'', \<lparr>entry_instance = poller 1 ''https://sqs/a'', stopOptions = None\<rparr>),
        (''b'', \<lparr>entry_instance = poller 2 ''https://sqs/b'', stopOptions = None\<rparr>)]\<rparr>"

text \<open>A payload of a sequence of two messages, and a serialiser that returns one fixed string.\<close>

definition two_messages :: "(nat, unit) Message_scheme payload" where
  "two_messages =
     Many [\<lparr>body = Val 1, groupId = Some ''g'', attributes = None\<rparr>,
           \<lparr>body = Str ''already-a-string'', groupId = None, attributes = Some [(''k'', ''v'')]\<rparr>]"

definition stringify_stub :: "nat \<Rightarrow> error + nat body" where
  "stringify_stub v = Inr (Str ''{a:1}'')"

text \<open>
  Discovered bindings: a single-message handler for orders, a batch handler for audit, and
  an error listener for orders owned by another instance than the orders handler.
\<close>

definition orders_handler :: MessageHandler where
  "orders_handler =
     \<lparr>mh_name = ''orders'', mh_batch = None, mh_handler = Fn 1, mh_instance = Instance 1\<rparr>"

definition audit_handler :: MessageHandler where
  "audit_handler =
     \<lparr>mh_name = ''audit'', mh_batch = Some True, mh_handler = Fn 2, mh_instance = Instance 2\<rparr>"

definition shop_handlers :: "MessageHandler list" where
  "shop_handlers = [orders_handler, audit_handler]"

definition orders_error_listener :: EventHandler where
  "orders_error_listener =
     \<lparr>eh_name = ''orders'', eh_eventName = ''error'', eh_handler = Fn 3, eh_instance = Instance 3\<rparr>"

text \<open>A consumer declaration with a client, an address and no callback key.\<close>

definition declared :: "QueueName \<Rightarrow> nat \<Rightarrow> SqsConsumerOptions" where
  "declared n h =
     \<lparr>co_name = n, co_stopOptions = None,
      consumerOptions =
        \<lparr>sqs = Some (SQSClient h), queueUrl = ''https://sqs/'' @ n,
         handleMessage = None, handleMessageBatch = None\<rparr>\<rparr>"

text \<open>Consumers orders, orphan (no binding) and audit; one producer.\<close>

definition shop :: SqsOptions where
  "shop =
     \<lparr>opt_consumers = Some [declared ''orders'' 1, declared ''orphan'' 2, declared ''audit'' 3],
      opt_producers =
        Some [\<lparr>po_name = ''out'',
               producerOptions = \<lparr>sqs = Some (SQSClient 4), queueUrl = ''https://sqs/out''\<rparr>\<rparr>],
      opt_globalStopOptions = None\<rparr>"

text \<open>The queue orders, which has a binding, declared twice.\<close>

definition twice_orders :: SqsOptions where
  "twice_orders =
     \<lparr>opt_consumers = Some [declared ''orders'' 1, declared ''orders'' 2],
      opt_producers = None, opt_globalStopOptions = None\<rparr>"

text \<open>The queue orphan, which has no binding, declared twice.\<close>

definition twice_orphan :: SqsOptions where
  "twice_orphan =
     \<lparr>opt_consumers = Some [declared ''orphan'' 1, declared ''orphan'' 2],
      opt_producers = None, opt_globalStopOptions = None\<rparr>"

text \<open>
  The queue audit, bound to a batch handler, declared with a single-message callback of
  its own among its remaining keys.
\<close>

definition keyed_audit :: SqsConsumerOptions where
  "keyed_audit =
     \<lparr>co_name = ''audit'', co_stopOptions = None,
      consumerOptions =
        \<lparr>sqs = Some (SQSClient 3), queueUrl = ''https://sqs/audit'',
         handleMessage = Some (Bind (Fn 7) (Instance 7)), handleMessageBatch = None\<rparr>\<rparr>"

definition keyed_shop :: SqsOptions where
  "keyed_shop =
     \<lparr>opt_consumers = Some [keyed_audit], opt_producers = None, opt_globalStopOptions = None\<rparr>"

text \<open>The queue Q declared as consumer on client 1 and as producer on client 2.\<close>

definition q_handler :: MessageHandler where
  "q_handler = \<lparr>mh_name = ''Q'', mh_batch = None, mh_handler = Fn 1, mh_instance = Instance 1\<rparr>"

definition q_options :: SqsOptions where
  "q_options =
     \<lparr>opt_consumers = Some [declared ''Q'' 1],
      opt_producers =
        Some [\<lparr>po_name = ''Q'',
               producerOptions = \<lparr>sqs = Some (SQSClient 2), queueUrl = ''https://sqs/Q-out''\<rparr>\<rparr>],
      opt_globalStopOptions = None\<rparr>"

definition q_registry :: SqsService where
  "q_registry = snd (onModuleInit quiet [q_handler] [] (new_SqsService q_options))"

text \<open>The construction and the whole initialisation on \<open>shop\<close>, with libraries that never throw.\<close>

definition shop_built :: "error option \<times> SqsService" where
  "shop_built = construct quiet shop_handlers [orders_error_listener] (new_SqsService shop)"

definition shop_run :: "error option \<times> SqsService" where
  "shop_run = onModuleInit quiet shop_handlers [orders_error_listener] (new_SqsService shop)"

section \<open>Properties\<close>

text \<open>The definitions that a run on one of the examples unfolds.\<close>

lemmas run_defs =
  onModuleInit_def construct_def onModuleDestroy_def forEach_opt_def consumer_callback_def
  producer_callback_def start_callback_def stop_callback_def emit_def
  Map_has_def Map_get_def Map_set_def Map_values_def Map_keys_def new_SqsService_def
  createOptions_def Consumer_create_instance_def Producer_create_instance_def
  addListener_calls_def listenerOf_def configured_consumers_def configured_producers_def
  handled_def creates_def produces_def Let_def

lemmas example_defs =
  quiet_def first_fails_def bare_service_def poller_def producer_only_def consumer_only_def
  two_pollers_def orders_handler_def audit_handler_def shop_handlers_def
  orders_error_listener_def declared_def shop_def twice_orders_def twice_orphan_def
  keyed_audit_def keyed_shop_def q_handler_def q_options_def

subsection \<open>The Map\<close>

lemma Map_has_iff: "Map_has m k \<longleftrightarrow> k \<in> set (Map_keys m)"
  by (simp add: Map_has_def Map_keys_def map_of_eq_None_iff)

lemma Map_set_absent: "\<not> Map_has m k \<Longrightarrow> Map_set m k v = m @ [(k, v)]"
  by (simp add: Map_set_def)

lemma Map_get_in: "Map_get m k = Some v \<Longrightarrow> v \<in> set (Map_values m)"
  by (auto simp add: Map_get_def Map_values_def dest: map_of_SomeD intro: rev_image_eqI)

subsection \<open>Operations that require a consumer\<close>

text \<open>
  C6, as the specification states it, fails in one part: the three operations are
  \<open>async\<close> functions, so for a name that the consumer map does not hold they do not
  throw to their caller. Called on \<open>producer_only\<close> with the name Q, none of the
  three ends in a throw (\<open>Inl\<close>): each returns a promise.
\<close>

theorem consumer_operations_counterexample:
  "\<not> Map_has (consumers producer_only) ''Q'' \<and> Map_has (producers producer_only) ''Q''
   \<and> \<not> isl (changeMessageVisibility producer_only ''Q'' ''rh'' 30 :: error + (nat, unit) promise)
   \<and> \<not> isl (deleteMessage producer_only ''Q'' ''rh'' :: error + (nat, unit) promise)
   \<and> \<not> isl (deleteMessageBatch producer_only ''Q''
               [\<lparr>MessageId = Some ''m1'', ReceiptHandle = Some ''rh''\<rparr>]
             :: error + (nat, unit) promise)"
  by (simp add: changeMessageVisibility_def deleteMessage_def deleteMessageBatch_def async_def
        producer_only_def bare_service_def new_SqsService_def Map_has_def)

text \<open>
  C6, amended. For a queue name that the consumer map does not hold, whatever the producer
  map holds, \<open>changeMessageVisibility\<close>, \<open>deleteMessage\<close> and \<open>deleteMessageBatch\<close>
  each return a promise that is rejected with the error "Consumer does not exist: name";
  the rejection is decided before any \<open>await\<close>, and no call is made on the backend.
\<close>

theorem consumer_operations_need_consumer:
  assumes "\<not> Map_has (consumers st) name"
  shows "changeMessageVisibility st name receiptHandle visibilityTimeout
           = Inr (Rejected (Error (''Consumer does not exist: '' @ name)))
       \<and> deleteMessage st name receiptHandle
           = Inr (Rejected (Error (''Consumer does not exist: '' @ name)))
       \<and> deleteMessageBatch st name messages
           = Inr (Rejected (Error (''Consumer does not exist: '' @ name)))"
  using assms
  by (simp add: changeMessageVisibility_def deleteMessage_def deleteMessageBatch_def async_def)

theorem consumer_operations_need_consumer_witness:
  "\<not> Map_has (consumers producer_only) ''Q'' \<and> Map_has (producers producer_only) ''Q''
   \<and> (changeMessageVisibility producer_only ''Q'' ''rh'' 30 :: error + (nat, unit) promise)
       = Inr (Rejected (Error ''Consumer does not exist: Q''))
   \<and> (deleteMessage producer_only ''Q'' ''rh'' :: error + (nat, unit) promise)
       = Inr (Rejected (Error ''Consumer does not exist: Q''))
   \<and> (deleteMessageBatch producer_only ''Q''
         [\<lparr>MessageId = Some ''m1'', ReceiptHandle = Some ''rh''\<rparr>] :: error + (nat, unit) promise)
       = Inr (Rejected (Error ''Consumer does not exist: Q''))"
proof -
  have absent: "\<not> Map_has (consumers producer_only) ''Q''"
    by (simp add: producer_only_def bare_service_def new_SqsService_def Map_has_def)
  have present: "Map_has (producers producer_only) ''Q''"
    by (simp add: producer_only_def bare_service_def new_SqsService_def Map_has_def)
  from consumer_operations_need_consumer
         [OF absent, of "''rh''" 30 "[\<lparr>MessageId = Some ''m1'', ReceiptHandle = Some ''rh''\<rparr>]"]
       absent present
  show ?thesis by simp
qed

subsection \<open>Operations that require a producer\<close>

text \<open>
  C7. For a queue name that the producer map does not hold, whatever the consumer map
  holds, \<open>send\<close> and \<open>getProducerQueueSize\<close> each throw the error
  "Producer does not exist: name": nothing is serialised and nothing is dispatched.
\<close>

theorem producer_operations_need_producer:
  assumes "\<not> Map_has (producers st) name"
  shows "send JSON_stringify st name pl = Inl (Error (''Producer does not exist: '' @ name))
       \<and> getProducerQueueSize st name = Inl (Error (''Producer does not exist: '' @ name))"
  using assms by (simp add: send_def getProducerQueueSize_def)

theorem producer_operations_need_producer_witness:
  "\<not> Map_has (producers consumer_only) ''Q'' \<and> Map_has (consumers consumer_only) ''Q''
   \<and> send stringify_stub consumer_only ''Q'' two_messages
       = Inl (Error ''Producer does not exist: Q'')
   \<and> (getProducerQueueSize consumer_only ''Q'' :: error + (nat, unit) call)
       = Inl (Error ''Producer does not exist: Q'')"
proof -
  have absent: "\<not> Map_has (producers consumer_only) ''Q''"
    by (simp add: consumer_only_def bare_service_def new_SqsService_def Map_has_def)
  have present: "Map_has (consumers consumer_only) ''Q''"
    by (simp add: consumer_only_def bare_service_def new_SqsService_def Map_has_def)
  from producer_operations_need_producer [OF absent, of stringify_stub two_messages]
       absent present
  show ?thesis by simp
qed

subsection \<open>Serialisation of message bodies\<close>

lemma map_throwing_Inr:
  "map_throwing f xs = Inr ys \<Longrightarrow> list_all2 (\<lambda>x y. f x = Inr y) xs ys"
  by (induction xs arbitrary: ys) (auto split: sum.splits)

lemma map_throwing_returns:
  "(\<forall>x\<in>set xs. \<exists>y. f x = Inr y) \<Longrightarrow> \<exists>ys. map_throwing f xs = Inr ys"
  by (induction xs) (auto split: sum.splits)

lemma serialize_Inr:
  assumes "serialize J m = Inr m'"
  shows "case body m of
           Str s \<Rightarrow> m' = m
         | Val v \<Rightarrow> J v = Inr (body m') \<and> m' = m\<lparr>body := body m'\<rparr>"
  using assms by (auto simp add: serialize_def split: body.splits sum.splits)

lemma serialize_returns:
  "(\<forall>v. body m = Val v \<longrightarrow> (\<exists>b. J v = Inr b)) \<Longrightarrow> \<exists>m'. serialize J m = Inr m'"
  by (auto simp add: serialize_def split: body.splits sum.splits)

text \<open>What \<open>send\<close> does with a list of messages, whichever payload they came from.\<close>

lemma send_dispatches:
  assumes has: "Map_has (producers st) name" and sent: "send J st name pl = Inr c"
  shows "\<exists>producer out.
           c = ProducerSend producer out \<and> Map_get (producers st) name = Some producer
           \<and> list_all2
                (\<lambda>m m'. case body m of
                           Str s \<Rightarrow> m' = m
                         | Val v \<Rightarrow> J v = Inr (body m') \<and> m' = m\<lparr>body := body m'\<rparr>)
                (originalMessages pl) out"
proof -
  from has obtain producer where p: "Map_get (producers st) name = Some producer"
    by (auto simp add: Map_has_def Map_get_def)
  from sent has p obtain out where
    out: "map_throwing (serialize J) (originalMessages pl) = Inr out"
    and c: "c = ProducerSend producer out"
    by (auto simp add: send_def split: sum.splits)
  have "list_all2 (\<lambda>m m'. serialize J m = Inr m') (originalMessages pl) out"
    using out by (rule map_throwing_Inr)
  then have l: "list_all2
               (\<lambda>m m'. case body m of
                          Str s \<Rightarrow> m' = m
                        | Val v \<Rightarrow> J v = Inr (body m') \<and> m' = m\<lparr>body := body m'\<rparr>)
               (originalMessages pl) out"
    by (rule list_all2_mono) (rule serialize_Inr)
  show ?thesis
  proof (intro exI conjI)
    show "c = ProducerSend producer out" by (rule c)
    show "Map_get (producers st) name = Some producer" by (rule p)
    show "list_all2
               (\<lambda>m m'. case body m of
                          Str s \<Rightarrow> m' = m
                        | Val v \<Rightarrow> J v = Inr (body m') \<and> m' = m\<lparr>body := body m'\<rparr>)
               (originalMessages pl) out" by (rule l)
  qed
qed

lemma send_returns:
  assumes has: "Map_has (producers st) name"
    and all: "\<forall>m\<in>set (originalMessages pl). \<forall>v. body m = Val v \<longrightarrow> (\<exists>b. J v = Inr b)"
  shows "\<exists>c. send J st name pl = Inr c"
proof -
  have each: "\<exists>m'. serialize J m = Inr m'" if "m \<in> set (originalMessages pl)" for m
    by (rule serialize_returns) (rule bspec [OF all that])
  then have "\<forall>m\<in>set (originalMessages pl). \<exists>m'. serialize J m = Inr m'"
    by (intro ballI)
  from map_throwing_returns [OF this]
  obtain out where out: "map_throwing (serialize J) (originalMessages pl) = Inr out"
    by (elim exE)
  from has obtain producer where p: "Map_get (producers st) name = Some producer"
    by (auto simp add: Map_has_def Map_get_def)
  have "send J st name pl = Inr (ProducerSend producer out)"
    using has out p by (simp add: send_def)
  then show ?thesis by (rule exI)
qed

text \<open>
  C4. For a name the producer map holds: whenever \<open>send\<close> with a single message
  dispatches, it hands the producer exactly one message, and whenever \<open>send\<close> with a
  sequence of messages dispatches, it hands the producer as many messages as the sequence
  has, in order. A message whose body is a string is dispatched as it is; a message whose
  body is not a string is dispatched with the body that \<open>JSON.stringify\<close> returned for the
  original body and with every other field unchanged. And \<open>send\<close> does dispatch when no
  call of \<open>JSON.stringify\<close> throws.
\<close>

theorem send_serializes_bodies:
  assumes "Map_has (producers st) name"
  shows "(\<forall>m c. send J st name (One m) = Inr c \<longrightarrow>
            (\<exists>producer m'.
               c = ProducerSend producer [m'] \<and> Map_get (producers st) name = Some producer
               \<and> (case body m of
                     Str s \<Rightarrow> m' = m
                   | Val v \<Rightarrow> J v = Inr (body m') \<and> m' = m\<lparr>body := body m'\<rparr>)))
       \<and> (\<forall>ms c. send J st name (Many ms) = Inr c \<longrightarrow>
            (\<exists>producer out.
               c = ProducerSend producer out \<and> Map_get (producers st) name = Some producer
               \<and> list_all2
                    (\<lambda>m m'. case body m of
                               Str s \<Rightarrow> m' = m
                             | Val v \<Rightarrow> J v = Inr (body m') \<and> m' = m\<lparr>body := body m'\<rparr>)
                    ms out))
       \<and> (\<forall>m. (\<forall>v. body m = Val v \<longrightarrow> (\<exists>b. J v = Inr b))
              \<longrightarrow> (\<exists>c. send J st name (One m) = Inr c))
       \<and> (\<forall>ms. (\<forall>m\<in>set ms. \<forall>v. body m = Val v \<longrightarrow> (\<exists>b. J v = Inr b))
              \<longrightarrow> (\<exists>c. send J st name (Many ms) = Inr c))"
proof (intro conjI allI impI)
  fix m c assume "send J st name (One m) = Inr c"
  from send_dispatches [OF assms this] obtain producer out where
    c: "c = ProducerSend producer out" and p: "Map_get (producers st) name = Some producer"
    and l: "list_all2
              (\<lambda>m m'. case body m of
                         Str s \<Rightarrow> m' = m
                       | Val v \<Rightarrow> J v = Inr (body m') \<and> m' = m\<lparr>body := body m'\<rparr>)
              [m] out"
    by (auto simp add: originalMessages_def)
  from l obtain m' where out: "out = [m']"
    and r: "case body m of
              Str s \<Rightarrow> m' = m
            | Val v \<Rightarrow> J v = Inr (body m') \<and> m' = m\<lparr>body := body m'\<rparr>"
    by (auto simp add: list_all2_Cons1)
  show "\<exists>producer m'.
          c = ProducerSend producer [m'] \<and> Map_get (producers st) name = Some producer
          \<and> (case body m of
                Str s \<Rightarrow> m' = m
              | Val v \<Rightarrow> J v = Inr (body m') \<and> m' = m\<lparr>body := body m'\<rparr>)"
  proof (intro exI conjI)
    show "c = ProducerSend producer [m']" using c out by simp
    show "Map_get (producers st) name = Some producer" by (rule p)
    show "case body m of
            Str s \<Rightarrow> m' = m
          | Val v \<Rightarrow> J v = Inr (body m') \<and> m' = m\<lparr>body := body m'\<rparr>" by (rule r)
  qed
next
  fix ms c assume "send J st name (Many ms) = Inr c"
  from send_dispatches [OF assms this]
  show "\<exists>producer out.
          c = ProducerSend producer out \<and> Map_get (producers st) name = Some producer
          \<and> list_all2
               (\<lambda>m m'. case body m of
                          Str s \<Rightarrow> m' = m
                        | Val v \<Rightarrow> J v = Inr (body m') \<and> m' = m\<lparr>body := body m'\<rparr>)
               ms out"
    by (simp add: originalMessages_def)
next
  fix m assume "\<forall>v. body m = Val v \<longrightarrow> (\<exists>b. J v = Inr b)"
  then have "\<forall>m'\<in>set (originalMessages (One m)). \<forall>v. body m' = Val v \<longrightarrow> (\<exists>b. J v = Inr b)"
    by (simp add: originalMessages_def)
  with assms show "\<exists>c. send J st name (One m) = Inr c" by (rule send_returns)
next
  fix ms assume "\<forall>m\<in>set ms. \<forall>v. body m = Val v \<longrightarrow> (\<exists>b. J v = Inr b)"
  then have "\<forall>m\<in>set (originalMessages (Many ms)). \<forall>v. body m = Val v \<longrightarrow> (\<exists>b. J v = Inr b)"
    by (simp add: originalMessages_def)
  with assms show "\<exists>c. send J st name (Many ms) = Inr c" by (rule send_returns)
qed

theorem send_serializes_bodies_witness:
  "Map_has (producers producer_only) ''Q''
   \<and> send stringify_stub producer_only ''Q''
       (One \<lparr>body = Val 1, groupId = Some ''g'', attributes = None\<rparr>)
     = Inr (ProducerSend \<lparr>sqs = Some (SQSClient 2), queueUrl = ''https://sqs/Q''\<rparr>
              [\<lparr>body = Str ''{a:1}'', groupId = Some ''g'', attributes = None\<rparr>])
   \<and> send stringify_stub producer_only ''Q''
       (One \<lparr>body = Str ''already-a-string'', groupId = None, attributes = None\<rparr>)
     = Inr (ProducerSend \<lparr>sqs = Some (SQSClient 2), queueUrl = ''https://sqs/Q''\<rparr>
              [\<lparr>body = Str ''already-a-string'', groupId = None, attributes = None\<rparr>])
   \<and> send stringify_stub producer_only ''Q''
       (Many [\<lparr>body = Val 1, groupId = Some ''g'', attributes = None\<rparr>,
              \<lparr>body = Str ''already-a-string'', groupId = None,
               attributes = Some [(''k'', ''v'')]\<rparr>])
     = Inr (ProducerSend \<lparr>sqs = Some (SQSClient 2), queueUrl = ''https://sqs/Q''\<rparr>
              [\<lparr>body = Str ''{a:1}'', groupId = Some ''g'', attributes = None\<rparr>,
               \<lparr>body = Str ''already-a-string'', groupId = None,
                attributes = Some [(''k'', ''v'')]\<rparr>])"
proof -
  define m1 :: "(nat, unit) Message_scheme"
    where "m1 = \<lparr>body = Val 1, groupId = Some ''g'', attributes = None\<rparr>"
  define m2 :: "(nat, unit) Message_scheme"
    where "m2 = \<lparr>body = Str ''already-a-string'', groupId = None, attributes = None\<rparr>"
  define m3 :: "(nat, unit) Message_scheme"
    where "m3 = \<lparr>body = Str ''already-a-string'', groupId = None,
                  attributes = Some [(''k'', ''v'')]\<rparr>"
  have present: "Map_has (producers producer_only) ''Q''"
    by (simp add: producer_only_def bare_service_def new_SqsService_def Map_has_def)
  note claim = send_serializes_bodies [OF present, of stringify_stub]
  have stub: "\<forall>v. body m = Val v \<longrightarrow> (\<exists>b. stringify_stub v = Inr b)"
    for m :: "(nat, unit) Message_scheme"
    by (simp add: stringify_stub_def)
  have the_producer: "producer = \<lparr>sqs = Some (SQSClient 2), queueUrl = ''https://sqs/Q''\<rparr>"
    if "Map_get (producers producer_only) ''Q'' = Some producer" for producer
    using that by (simp add: producer_only_def Map_get_def)
  have single: "\<exists>m'. send stringify_stub producer_only ''Q'' (One m)
                  = Inr (ProducerSend \<lparr>sqs = Some (SQSClient 2), queueUrl = ''https://sqs/Q''\<rparr> [m'])
                \<and> (case body m of
                      Str s \<Rightarrow> m' = m
                    | Val v \<Rightarrow> stringify_stub v = Inr (body m') \<and> m' = m\<lparr>body := body m'\<rparr>)"
    for m :: "(nat, unit) Message_scheme"
  proof -
    from claim stub [of m] obtain c where c: "send stringify_stub producer_only ''Q'' (One m) = Inr c"
      by blast
    with claim obtain producer m' where
      "c = ProducerSend producer [m']" "Map_get (producers producer_only) ''Q'' = Some producer"
      "case body m of
         Str s \<Rightarrow> m' = m
       | Val v \<Rightarrow> stringify_stub v = Inr (body m') \<and> m' = m\<lparr>body := body m'\<rparr>"
      by blast
    with c the_producer show ?thesis by auto
  qed
  from single [of m1]
  have s1: "send stringify_stub producer_only ''Q'' (One m1)
     = Inr (ProducerSend \<lparr>sqs = Some (SQSClient 2), queueUrl = ''https://sqs/Q''\<rparr>
              [\<lparr>body = Str ''{a:1}'', groupId = Some ''g'', attributes = None\<rparr>])"
    by (auto simp add: m1_def stringify_stub_def)
  from single [of m2]
  have s2: "send stringify_stub producer_only ''Q'' (One m2)
     = Inr (ProducerSend \<lparr>sqs = Some (SQSClient 2), queueUrl = ''https://sqs/Q''\<rparr> [m2])"
    by (auto simp add: m2_def)
  have "\<forall>m\<in>set [m1, m3]. \<forall>v. body m = Val v \<longrightarrow> (\<exists>b. stringify_stub v = Inr b)"
    by (simp add: stringify_stub_def)
  with claim obtain c where c: "send stringify_stub producer_only ''Q'' (Many [m1, m3]) = Inr c"
    by blast
  with claim obtain producer out where
    sent: "c = ProducerSend producer out" "Map_get (producers producer_only) ''Q'' = Some producer"
    and l: "list_all2
              (\<lambda>m m'. case body m of
                         Str s \<Rightarrow> m' = m
                       | Val v \<Rightarrow> stringify_stub v = Inr (body m') \<and> m' = m\<lparr>body := body m'\<rparr>)
              [m1, m3] out"
    by blast
  from l have "out = [\<lparr>body = Str ''{a:1}'', groupId = Some ''g'', attributes = None\<rparr>, m3]"
    by (auto simp add: m1_def m3_def stringify_stub_def list_all2_Cons1)
  with c sent the_producer
  have s3: "send stringify_stub producer_only ''Q'' (Many [m1, m3])
     = Inr (ProducerSend \<lparr>sqs = Some (SQSClient 2), queueUrl = ''https://sqs/Q''\<rparr>
              [\<lparr>body = Str ''{a:1}'', groupId = Some ''g'', attributes = None\<rparr>, m3])"
    by auto
  from present s1 s2 s3 show ?thesis
    unfolding m1_def m2_def m3_def by simp
qed

subsection \<open>Loops\<close>

lemma forEach_throws_at:
  "forEach f xs s = (Some e, s') \<Longrightarrow>
     \<exists>k<length xs. \<exists>sk. forEach f (take k xs) s = (None, sk) \<and> f (xs ! k) sk = (Some e, s')"
proof (induction xs arbitrary: s)
  case Nil
  then show ?case by simp
next
  case (Cons x xs)
  show ?case
  proof (cases "f x s")
    case (Pair r s1)
    show ?thesis
    proof (cases r)
      case None
      with Pair Cons.prems have "forEach f xs s1 = (Some e, s')" by simp
      from Cons.IH [OF this] obtain k sk where
        k: "k < length xs" "forEach f (take k xs) s1 = (None, sk)" "f (xs ! k) sk = (Some e, s')"
        by blast
      with Pair None have "Suc k < length (x # xs) \<and> forEach f (take (Suc k) (x # xs)) s = (None, sk)
          \<and> f ((x # xs) ! Suc k) sk = (Some e, s')"
        by simp
      then show ?thesis by blast
    next
      case (Some e')
      with Pair Cons.prems have "f x s = (Some e, s')" by simp
      then have "0 < length (x # xs) \<and> forEach f (take 0 (x # xs)) s = (None, s)
          \<and> f ((x # xs) ! 0) s = (Some e, s')"
        by simp
      then show ?thesis by blast
    qed
  qed
qed

lemma emit_emit: "emit es (emit ds s) = emit (ds @ es) s"
  by (simp add: emit_def)

text \<open>A loop whose body logs one call and throws or not by a test of the element alone.\<close>

lemma forEach_logging:
  assumes body: "\<And>x s. f x s = (thr x, emit [mk x] s)"
  shows "forEach f xs s =
           (case dropWhile (\<lambda>x. thr x = None) xs of [] \<Rightarrow> None | x # rest \<Rightarrow> thr x,
            emit (map mk (take (Suc (length (takeWhile (\<lambda>x. thr x = None) xs))) xs)) s)"
proof (induction xs arbitrary: s)
  case Nil
  show ?case by (simp add: emit_def)
next
  case (Cons x xs)
  show ?case
  proof (cases "thr x")
    case None
    have "forEach f (x # xs) s = forEach f xs (emit [mk x] s)"
      unfolding forEach.simps body None by simp
    also have "\<dots> = (case dropWhile (\<lambda>x. thr x = None) xs of [] \<Rightarrow> None | x # rest \<Rightarrow> thr x,
            emit (map mk (take (Suc (length (takeWhile (\<lambda>x. thr x = None) xs))) xs)) (emit [mk x] s))"
      by (rule Cons.IH)
    finally show ?thesis using None by (simp add: emit_emit)
  next
    case (Some e)
    have "forEach f (x # xs) s = (Some e, emit [mk x] s)"
      unfolding forEach.simps body Some by simp
    then show ?thesis using Some by simp
  qed
qed

subsection \<open>The consumer loop of the construction\<close>

lemma consumer_callback_cases:
  "consumer_callback ev mhs ehs c st =
     (if Map_has (consumers st) (co_name c)
      then (Some (Error (''Consumer already exists: '' @ co_name c)), st)
      else
        (case find (\<lambda>h. mh_name h = co_name c) mhs of
           None \<Rightarrow> (None, st\<lparr>calls := calls st @ consumer_events mhs ehs c\<rparr>)
         | Some metadata \<Rightarrow>
             (case Consumer_create_throws ev (createOptions (consumerOptions c) metadata) of
                Some e \<Rightarrow>
                  (Some e,
                   st\<lparr>calls := calls st @
                        [Consumer_create (co_name c) (createOptions (consumerOptions c) metadata)]\<rparr>)
              | None \<Rightarrow>
                  (None,
                   st\<lparr>calls := calls st @ consumer_events mhs ehs c,
                      consumers := consumers st @
                        [(co_name c, built_entry ev (globalStopOptions st) ehs c metadata)]\<rparr>))))"
  by (simp add: consumer_callback_def consumer_events_def emit_def Map_set_absent Let_def
        built_entry_def split: option.splits)

lemma consumer_step_frame:
  "consumer_callback ev mhs ehs c st = (r, st1) \<Longrightarrow>
     options st1 = options st \<and> producers st1 = producers st
     \<and> globalStopOptions st1 = globalStopOptions st"
  by (auto simp add: consumer_callback_cases split: if_splits option.splits)

lemma consumer_step_ok_iff:
  "fst (consumer_callback ev mhs ehs c st) = None \<longleftrightarrow>
     \<not> Map_has (consumers st) (co_name c) \<and> creates ev mhs c"
  by (auto simp add: consumer_callback_cases creates_def split: option.splits)

lemma consumer_step_None:
  assumes "consumer_callback ev mhs ehs c st = (None, st1)"
  shows "Map_keys (consumers st1) = Map_keys (consumers st) @ filter (handled mhs) [co_name c]"
    and "calls st1 = calls st @ consumer_events mhs ehs c"
    and "set (consumers st1) \<subseteq> set (consumers st) \<union>
           {(co_name c, built_entry ev (globalStopOptions st) ehs c metadata) | metadata.
              find (\<lambda>h. mh_name h = co_name c) mhs = Some metadata}"
  using assms
  by (auto simp add: consumer_callback_cases handled_def Map_keys_def
        split: if_splits option.splits)

lemma consumer_step_Some:
  assumes "consumer_callback ev mhs ehs c st = (Some e, st1)"
  shows "(Map_has (consumers st) (co_name c) \<and> st1 = st
          \<and> e = Error (''Consumer already exists: '' @ co_name c))
       \<or> (\<not> Map_has (consumers st) (co_name c) \<and> \<not> creates ev mhs c
           \<and> consumers st1 = consumers st
           \<and> (\<exists>metadata. find (\<lambda>h. mh_name h = co_name c) mhs = Some metadata
                 \<and> calls st1 = calls st @
                       [Consumer_create (co_name c) (createOptions (consumerOptions c) metadata)]))"
  using assms
  by (auto simp add: consumer_callback_cases creates_def split: if_splits option.splits)

lemma consumer_step_events:
  assumes "consumer_callback ev mhs ehs c st = (r, st1)" and "e \<in> set (calls st1)"
  shows "e \<in> set (calls st) \<or> e \<in> set (consumer_events mhs ehs c)"
  using assms
  by (auto simp add: consumer_callback_cases consumer_events_def split: if_splits option.splits)

lemma consumer_step_entries:
  assumes "consumer_callback ev mhs ehs c st = (r, st1)" and "(n, entry) \<in> set (consumers st1)"
  shows "(n, entry) \<in> set (consumers st)
       \<or> (co_name c = n \<and> (\<exists>metadata. find (\<lambda>h. mh_name h = n) mhs = Some metadata
              \<and> entry = built_entry ev (globalStopOptions st) ehs c metadata))"
  using assms
  by (auto simp add: consumer_callback_cases split: if_splits option.splits)

lemma consumers_loop_frame:
  "forEach (consumer_callback ev mhs ehs) cs st = (r, st') \<Longrightarrow>
     options st' = options st \<and> producers st' = producers st
     \<and> globalStopOptions st' = globalStopOptions st"
proof (induction cs arbitrary: st)
  case Nil
  then show ?case by simp
next
  case (Cons c cs)
  obtain r1 st1 where step: "consumer_callback ev mhs ehs c st = (r1, st1)"
    by (cases "consumer_callback ev mhs ehs c st")
  note same = consumer_step_frame [OF step]
  show ?case
  proof (cases r1)
    case (Some e)
    with step Cons.prems have "st' = st1" by simp
    with same show ?thesis by simp
  next
    case None
    with step Cons.prems have "forEach (consumer_callback ev mhs ehs) cs st1 = (r, st')" by simp
    from Cons.IH [OF this] same show ?thesis by simp
  qed
qed

lemma consumers_loop_success:
  "forEach (consumer_callback ev mhs ehs) cs st = (None, st') \<Longrightarrow>
     Map_keys (consumers st') = Map_keys (consumers st) @ filter (handled mhs) (map co_name cs)
     \<and> calls st' = calls st @ concat (map (consumer_events mhs ehs) cs)"
proof (induction cs arbitrary: st)
  case Nil
  then show ?case by simp
next
  case (Cons c cs)
  obtain r1 st1 where step: "consumer_callback ev mhs ehs c st = (r1, st1)"
    by (cases "consumer_callback ev mhs ehs c st")
  show ?case
  proof (cases r1)
    case (Some e)
    with step Cons.prems show ?thesis by simp
  next
    case None
    with step Cons.prems have "forEach (consumer_callback ev mhs ehs) cs st1 = (None, st')" by simp
    from Cons.IH [OF this] consumer_step_None(1,2) [OF step [unfolded None]]
    show ?thesis by simp
  qed
qed

lemma consumers_loop_ok_iff:
  "fst (forEach (consumer_callback ev mhs ehs) cs st) = None \<longleftrightarrow>
     distinct (filter (handled mhs) (map co_name cs))
     \<and> co_name ` set cs \<inter> set (Map_keys (consumers st)) = {}
     \<and> list_all (creates ev mhs) cs"
proof (induction cs arbitrary: st)
  case Nil
  show ?case by simp
next
  case (Cons c cs)
  obtain r1 st1 where step: "consumer_callback ev mhs ehs c st = (r1, st1)"
    by (cases "consumer_callback ev mhs ehs c st")
  show ?case
  proof (cases r1)
    case (Some e)
    with step have "fst (consumer_callback ev mhs ehs c st) \<noteq> None" by simp
    then have "Map_has (consumers st) (co_name c) \<or> \<not> creates ev mhs c"
      by (simp add: consumer_step_ok_iff)
    moreover have "fst (forEach (consumer_callback ev mhs ehs) (c # cs) st) \<noteq> None"
      using step Some by simp
    ultimately show ?thesis by (auto simp add: Map_has_iff)
  next
    case None
    with step have "fst (consumer_callback ev mhs ehs c st) = None" by simp
    then have absent: "\<not> Map_has (consumers st) (co_name c)" and made: "creates ev mhs c"
      by (simp_all add: consumer_step_ok_iff)
    have keys: "set (Map_keys (consumers st1)) =
                  set (Map_keys (consumers st)) \<union> set (filter (handled mhs) [co_name c])"
      using consumer_step_None(1) [OF step [unfolded None]] by simp
    have "fst (forEach (consumer_callback ev mhs ehs) (c # cs) st)
            = fst (forEach (consumer_callback ev mhs ehs) cs st1)"
      using step None by simp
    also have "\<dots> = None \<longleftrightarrow>
        distinct (filter (handled mhs) (map co_name cs))
        \<and> co_name ` set cs \<inter> set (Map_keys (consumers st1)) = {}
        \<and> list_all (creates ev mhs) cs"
      by (rule Cons.IH)
    finally show ?thesis
      using absent made keys by (cases "handled mhs (co_name c)") (auto simp add: Map_has_iff)
  qed
qed

lemma consumers_loop_entries:
  "forEach (consumer_callback ev mhs ehs) cs st = (r, st') \<Longrightarrow> (n, entry) \<in> set (consumers st') \<Longrightarrow>
     (n, entry) \<in> set (consumers st)
     \<or> (\<exists>c\<in>set cs. \<exists>metadata.
           co_name c = n \<and> find (\<lambda>h. mh_name h = n) mhs = Some metadata
           \<and> entry = built_entry ev (globalStopOptions st) ehs c metadata)"
proof (induction cs arbitrary: st)
  case Nil
  then show ?case by simp
next
  case (Cons c cs)
  obtain r1 st1 where step: "consumer_callback ev mhs ehs c st = (r1, st1)"
    by (cases "consumer_callback ev mhs ehs c st")
  note glob = consumer_step_frame [OF step]
  show ?case
  proof (cases r1)
    case (Some e)
    with step Cons.prems have "(n, entry) \<in> set (consumers st1)" by simp
    from consumer_step_entries [OF step this] show ?thesis by auto
  next
    case None
    with step Cons.prems have "forEach (consumer_callback ev mhs ehs) cs st1 = (r, st')" by simp
    from Cons.IH [OF this Cons.prems(2)]
    have "(n, entry) \<in> set (consumers st1)
     \<or> (\<exists>c\<in>set cs. \<exists>metadata.
           co_name c = n \<and> find (\<lambda>h. mh_name h = n) mhs = Some metadata
           \<and> entry = built_entry ev (globalStopOptions st) ehs c metadata)"
      using glob by simp
    then show ?thesis
    proof
      assume "(n, entry) \<in> set (consumers st1)"
      from consumer_step_entries [OF step this] show ?thesis by auto
    next
      assume "\<exists>c\<in>set cs. \<exists>metadata.
           co_name c = n \<and> find (\<lambda>h. mh_name h = n) mhs = Some metadata
           \<and> entry = built_entry ev (globalStopOptions st) ehs c metadata"
      then show ?thesis by auto
    qed
  qed
qed

lemma consumers_loop_events:
  "forEach (consumer_callback ev mhs ehs) cs st = (r, st') \<Longrightarrow> e \<in> set (calls st') \<Longrightarrow>
     e \<in> set (calls st) \<or> (\<exists>c\<in>set cs. e \<in> set (consumer_events mhs ehs c))"
proof (induction cs arbitrary: st)
  case Nil
  then show ?case by simp
next
  case (Cons c cs)
  obtain r1 st1 where step: "consumer_callback ev mhs ehs c st = (r1, st1)"
    by (cases "consumer_callback ev mhs ehs c st")
  show ?case
  proof (cases r1)
    case (Some e')
    with step Cons.prems have "e \<in> set (calls st1)" by simp
    from consumer_step_events [OF step this] show ?thesis by auto
  next
    case None
    with step Cons.prems have "forEach (consumer_callback ev mhs ehs) cs st1 = (r, st')" by simp
    from Cons.IH [OF this Cons.prems(2)]
    show ?thesis
    proof
      assume "e \<in> set (calls st1)"
      from consumer_step_events [OF step this] show ?thesis by auto
    next
      assume "\<exists>c\<in>set cs. e \<in> set (consumer_events mhs ehs c)"
      then show ?thesis by auto
    qed
  qed
qed

lemma consumers_loop_throws:
  assumes "forEach (consumer_callback ev mhs ehs) cs st = (Some e, st')"
  shows "\<exists>k<length cs. \<exists>sk.
           forEach (consumer_callback ev mhs ehs) (take k cs) st = (None, sk)
           \<and> ((Map_has (consumers sk) (co_name (cs ! k)) \<and> st' = sk
                \<and> e = Error (''Consumer already exists: '' @ co_name (cs ! k)))
               \<or> (\<not> Map_has (consumers sk) (co_name (cs ! k)) \<and> \<not> creates ev mhs (cs ! k)))"
proof -
  from forEach_throws_at [OF assms] obtain k sk where
    k: "k < length cs" and pre: "forEach (consumer_callback ev mhs ehs) (take k cs) st = (None, sk)"
    and step: "consumer_callback ev mhs ehs (cs ! k) sk = (Some e, st')"
    by blast
  from consumer_step_Some [OF step]
  have "(Map_has (consumers sk) (co_name (cs ! k)) \<and> st' = sk
                \<and> e = Error (''Consumer already exists: '' @ co_name (cs ! k)))
               \<or> (\<not> Map_has (consumers sk) (co_name (cs ! k)) \<and> \<not> creates ev mhs (cs ! k))"
    by auto
  with k pre show ?thesis by blast
qed

subsection \<open>The producer loop of the construction\<close>

lemma producer_callback_cases:
  "producer_callback ev p st =
     (if Map_has (producers st) (po_name p)
      then (Some (Error (''Producer already exists: '' @ po_name p)), st)
      else
        (case Producer_create_throws ev (producerOptions p) of
           Some e \<Rightarrow> (Some e, st\<lparr>calls := calls st @ producer_events p\<rparr>)
         | None \<Rightarrow>
             (None, st\<lparr>calls := calls st @ producer_events p,
                      producers := producers st @
                        [(po_name p, Producer_create_instance ev (producerOptions p))]\<rparr>)))"
  by (simp add: producer_callback_def producer_events_def emit_def Map_set_absent Let_def
        split: option.splits)

lemma producer_step_frame:
  "producer_callback ev p st = (r, st1) \<Longrightarrow>
     options st1 = options st \<and> consumers st1 = consumers st
     \<and> globalStopOptions st1 = globalStopOptions st"
  by (auto simp add: producer_callback_cases split: if_splits option.splits)

lemma producer_step_ok_iff:
  "fst (producer_callback ev p st) = None \<longleftrightarrow>
     \<not> Map_has (producers st) (po_name p) \<and> produces ev p"
  by (auto simp add: producer_callback_cases produces_def split: option.splits)

lemma producer_step_None:
  assumes "producer_callback ev p st = (None, st1)"
  shows "Map_keys (producers st1) = Map_keys (producers st) @ [po_name p]"
    and "calls st1 = calls st @ producer_events p"
  using assms
  by (auto simp add: producer_callback_cases Map_keys_def split: if_splits option.splits)

lemma producer_step_events:
  assumes "producer_callback ev p st = (r, st1)" and "e \<in> set (calls st1)"
  shows "e \<in> set (calls st) \<or> e \<in> set (producer_events p)"
  using assms
  by (auto simp add: producer_callback_cases split: if_splits option.splits)

lemma producer_step_entries:
  assumes "producer_callback ev p st = (r, st1)" and "(n, producer) \<in> set (producers st1)"
  shows "(n, producer) \<in> set (producers st)
       \<or> producer = Producer_create_instance ev (producerOptions p)"
  using assms
  by (auto simp add: producer_callback_cases split: if_splits option.splits)

lemma producers_loop_frame:
  "forEach (producer_callback ev) ps st = (r, st') \<Longrightarrow>
     options st' = options st \<and> consumers st' = consumers st
     \<and> globalStopOptions st' = globalStopOptions st"
proof (induction ps arbitrary: st)
  case Nil
  then show ?case by simp
next
  case (Cons p ps)
  obtain r1 st1 where step: "producer_callback ev p st = (r1, st1)"
    by (cases "producer_callback ev p st")
  note same = producer_step_frame [OF step]
  show ?case
  proof (cases r1)
    case (Some e)
    with step Cons.prems have "st' = st1" by simp
    with same show ?thesis by simp
  next
    case None
    with step Cons.prems have "forEach (producer_callback ev) ps st1 = (r, st')" by simp
    from Cons.IH [OF this] same show ?thesis by simp
  qed
qed

lemma producers_loop_success:
  "forEach (producer_callback ev) ps st = (None, st') \<Longrightarrow>
     Map_keys (producers st') = Map_keys (producers st) @ map po_name ps
     \<and> calls st' = calls st @ concat (map producer_events ps)"
proof (induction ps arbitrary: st)
  case Nil
  then show ?case by simp
next
  case (Cons p ps)
  obtain r1 st1 where step: "producer_callback ev p st = (r1, st1)"
    by (cases "producer_callback ev p st")
  show ?case
  proof (cases r1)
    case (Some e)
    with step Cons.prems show ?thesis by simp
  next
    case None
    with step Cons.prems have "forEach (producer_callback ev) ps st1 = (None, st')" by simp
    from Cons.IH [OF this] producer_step_None [OF step [unfolded None]]
    show ?thesis by simp
  qed
qed

lemma producers_loop_ok_iff:
  "fst (forEach (producer_callback ev) ps st) = None \<longleftrightarrow>
     distinct (map po_name ps) \<and> po_name ` set ps \<inter> set (Map_keys (producers st)) = {}
     \<and> list_all (produces ev) ps"
proof (induction ps arbitrary: st)
  case Nil
  show ?case by simp
next
  case (Cons p ps)
  obtain r1 st1 where step: "producer_callback ev p st = (r1, st1)"
    by (cases "producer_callback ev p st")
  show ?case
  proof (cases r1)
    case (Some e)
    with step have "fst (producer_callback ev p st) \<noteq> None" by simp
    then have "Map_has (producers st) (po_name p) \<or> \<not> produces ev p"
      by (simp add: producer_step_ok_iff)
    moreover have "fst (forEach (producer_callback ev) (p # ps) st) \<noteq> None"
      using step Some by simp
    ultimately show ?thesis by (auto simp add: Map_has_iff)
  next
    case None
    with step have "fst (producer_callback ev p st) = None" by simp
    then have absent: "\<not> Map_has (producers st) (po_name p)" and made: "produces ev p"
      by (simp_all add: producer_step_ok_iff)
    have keys: "set (Map_keys (producers st1)) = insert (po_name p) (set (Map_keys (producers st)))"
      using producer_step_None(1) [OF step [unfolded None]] by simp
    have "fst (forEach (producer_callback ev) (p # ps) st)
            = fst (forEach (producer_callback ev) ps st1)"
      using step None by simp
    also have "\<dots> = None \<longleftrightarrow>
        distinct (map po_name ps) \<and> po_name ` set ps \<inter> set (Map_keys (producers st1)) = {}
        \<and> list_all (produces ev) ps"
      by (rule Cons.IH)
    finally show ?thesis
      using absent made keys by (auto simp add: Map_has_iff)
  qed
qed

lemma producers_loop_entries:
  "forEach (producer_callback ev) ps st = (r, st') \<Longrightarrow> (n, producer) \<in> set (producers st') \<Longrightarrow>
     (n, producer) \<in> set (producers st)
     \<or> (\<exists>p\<in>set ps. producer = Producer_create_instance ev (producerOptions p))"
proof (induction ps arbitrary: st)
  case Nil
  then show ?case by simp
next
  case (Cons p ps)
  obtain r1 st1 where step: "producer_callback ev p st = (r1, st1)"
    by (cases "producer_callback ev p st")
  show ?case
  proof (cases r1)
    case (Some e)
    with step Cons.prems have "(n, producer) \<in> set (producers st1)" by simp
    from producer_step_entries [OF step this] show ?thesis by auto
  next
    case None
    with step Cons.prems have "forEach (producer_callback ev) ps st1 = (r, st')" by simp
    from Cons.IH [OF this Cons.prems(2)]
    show ?thesis
    proof
      assume "(n, producer) \<in> set (producers st1)"
      from producer_step_entries [OF step this] show ?thesis by auto
    next
      assume "\<exists>p\<in>set ps. producer = Producer_create_instance ev (producerOptions p)"
      then show ?thesis by auto
    qed
  qed
qed

lemma producers_loop_events:
  "forEach (producer_callback ev) ps st = (r, st') \<Longrightarrow> e \<in> set (calls st') \<Longrightarrow>
     e \<in> set (calls st) \<or> (\<exists>p\<in>set ps. e \<in> set (producer_events p))"
proof (induction ps arbitrary: st)
  case Nil
  then show ?case by simp
next
  case (Cons p ps)
  obtain r1 st1 where step: "producer_callback ev p st = (r1, st1)"
    by (cases "producer_callback ev p st")
  show ?case
  proof (cases r1)
    case (Some e')
    with step Cons.prems have "e \<in> set (calls st1)" by simp
    from producer_step_events [OF step this] show ?thesis by auto
  next
    case None
    with step Cons.prems have "forEach (producer_callback ev) ps st1 = (r, st')" by simp
    from Cons.IH [OF this Cons.prems(2)]
    show ?thesis
    proof
      assume "e \<in> set (calls st1)"
      from producer_step_events [OF step this] show ?thesis by auto
    next
      assume "\<exists>p\<in>set ps. e \<in> set (producer_events p)"
      then show ?thesis by auto
    qed
  qed
qed

subsection \<open>The construction from a fresh service\<close>

lemma assigned_fields:
  "options (assigned opts) = opts" "consumers (assigned opts) = []"
  "producers (assigned opts) = []" "calls (assigned opts) = []"
  by (simp_all add: assigned_def new_SqsService_def)

lemma forEach_opt_consumers:
  "forEach_opt f (opt_consumers opts) s = forEach f (configured_consumers opts) s"
  by (simp add: forEach_opt_def configured_consumers_def split: option.splits)

lemma forEach_opt_producers:
  "forEach_opt f (opt_producers opts) s = forEach f (configured_producers opts) s"
  by (simp add: forEach_opt_def configured_producers_def split: option.splits)

lemma construct_fresh:
  "construct ev mhs ehs (new_SqsService opts) =
     (case forEach (consumer_callback ev mhs ehs) (configured_consumers opts) (assigned opts) of
        (Some e, st1) \<Rightarrow> (Some e, st1)
      | (None, st1) \<Rightarrow> forEach (producer_callback ev) (configured_producers opts) st1)"
proof -
  have a: "(new_SqsService opts)\<lparr>globalStopOptions :=
             (case opt_globalStopOptions (options (new_SqsService opts)) of
                Some g \<Rightarrow> Some g
              | None \<Rightarrow> Some \<lparr>abort = None\<rparr>)\<rparr> = assigned opts"
    by (simp add: assigned_def new_SqsService_def)
  have unfolded: "construct ev mhs ehs (new_SqsService opts) =
     (case forEach (consumer_callback ev mhs ehs) (configured_consumers opts) (assigned opts) of
        (Some e, st1) \<Rightarrow> (Some e, st1)
      | (None, st1) \<Rightarrow> forEach_opt (producer_callback ev) (opt_producers (options st1)) st1)"
    by (simp only: construct_def Let_def a assigned_fields forEach_opt_consumers)
  obtain r st1 where
    loop: "forEach (consumer_callback ev mhs ehs) (configured_consumers opts) (assigned opts) = (r, st1)"
    by (cases "forEach (consumer_callback ev mhs ehs) (configured_consumers opts) (assigned opts)")
  from consumers_loop_frame [OF loop] have "options st1 = opts"
    by (simp add: assigned_fields)
  then show ?thesis
    unfolding unfolded loop by (simp add: forEach_opt_producers split: option.splits)
qed

text \<open>The two loops of the construction, whatever its outcome.\<close>

lemma construct_parts:
  obtains r1 st1 r2 st2 where
    "forEach (consumer_callback ev mhs ehs) (configured_consumers opts) (assigned opts) = (r1, st1)"
    "construct ev mhs ehs (new_SqsService opts) = (r2, st2)"
    "producers st1 = []"
    "r1 \<noteq> None \<longrightarrow> r2 = r1 \<and> st2 = st1"
    "r1 = None \<longrightarrow> forEach (producer_callback ev) (configured_producers opts) st1 = (r2, st2)"
proof -
  obtain r1 st1 where
    loop1: "forEach (consumer_callback ev mhs ehs) (configured_consumers opts) (assigned opts) = (r1, st1)"
    by (cases "forEach (consumer_callback ev mhs ehs) (configured_consumers opts) (assigned opts)")
  obtain r2 st2 where c: "construct ev mhs ehs (new_SqsService opts) = (r2, st2)"
    by (cases "construct ev mhs ehs (new_SqsService opts)")
  from consumers_loop_frame [OF loop1] have none: "producers st1 = []"
    by (simp add: assigned_fields)
  from c loop1 have "r1 \<noteq> None \<longrightarrow> r2 = r1 \<and> st2 = st1"
    by (auto simp add: construct_fresh)
  moreover from c loop1
  have "r1 = None \<longrightarrow> forEach (producer_callback ev) (configured_producers opts) st1 = (r2, st2)"
    by (auto simp add: construct_fresh)
  ultimately show thesis using that loop1 c none by blast
qed

lemma construct_consumers:
  "consumers (snd (construct ev mhs ehs (new_SqsService opts)))
     = consumers (snd (forEach (consumer_callback ev mhs ehs) (configured_consumers opts)
                         (assigned opts)))"
proof -
  obtain r1 st1 r2 st2 where
    loop1: "forEach (consumer_callback ev mhs ehs) (configured_consumers opts) (assigned opts) = (r1, st1)"
    and c: "construct ev mhs ehs (new_SqsService opts) = (r2, st2)"
    and "producers st1 = []"
    and failed: "r1 \<noteq> None \<longrightarrow> r2 = r1 \<and> st2 = st1"
    and went_on: "r1 = None \<longrightarrow> forEach (producer_callback ev) (configured_producers opts) st1 = (r2, st2)"
    by (rule construct_parts [of ev mhs ehs opts])
  show ?thesis
  proof (cases r1)
    case None
    with went_on have "forEach (producer_callback ev) (configured_producers opts) st1 = (r2, st2)"
      by simp
    from producers_loop_frame [OF this] loop1 c show ?thesis by simp
  next
    case (Some e)
    with failed loop1 c show ?thesis by simp
  qed
qed

lemma construct_ok_iff:
  "fst (construct ev mhs ehs (new_SqsService opts)) = None \<longleftrightarrow> unobstructed ev mhs opts"
proof -
  obtain r1 st1 r2 st2 where
    loop1: "forEach (consumer_callback ev mhs ehs) (configured_consumers opts) (assigned opts) = (r1, st1)"
    and c: "construct ev mhs ehs (new_SqsService opts) = (r2, st2)"
    and none: "producers st1 = []"
    and failed: "r1 \<noteq> None \<longrightarrow> r2 = r1 \<and> st2 = st1"
    and went_on: "r1 = None \<longrightarrow> forEach (producer_callback ev) (configured_producers opts) st1 = (r2, st2)"
    by (rule construct_parts [of ev mhs ehs opts])
  have first: "r1 = None \<longleftrightarrow>
      distinct (filter (handled mhs) (map co_name (configured_consumers opts)))
      \<and> list_all (creates ev mhs) (configured_consumers opts)"
    using consumers_loop_ok_iff [of ev mhs ehs "configured_consumers opts" "assigned opts"] loop1
    by (simp add: assigned_fields Map_keys_def)
  show ?thesis
  proof (cases r1)
    case None
    with went_on have loop2: "forEach (producer_callback ev) (configured_producers opts) st1 = (r2, st2)"
      by simp
    have "r2 = None \<longleftrightarrow>
        distinct (map po_name (configured_producers opts))
        \<and> list_all (produces ev) (configured_producers opts)"
      using producers_loop_ok_iff [of ev "configured_producers opts" st1] loop2 none
      by (simp add: Map_keys_def)
    with first None c show ?thesis by (simp add: unobstructed_def)
  next
    case (Some e)
    with failed first c show ?thesis by (auto simp add: unobstructed_def)
  qed
qed

lemma construct_success:
  assumes "fst (construct ev mhs ehs (new_SqsService opts)) = None"
  shows "Map_keys (consumers (snd (construct ev mhs ehs (new_SqsService opts))))
           = filter (handled mhs) (map co_name (configured_consumers opts))"
    and "Map_keys (producers (snd (construct ev mhs ehs (new_SqsService opts))))
           = map po_name (configured_producers opts)"
    and "calls (snd (construct ev mhs ehs (new_SqsService opts)))
           = concat (map (consumer_events mhs ehs) (configured_consumers opts))
             @ concat (map producer_events (configured_producers opts))"
proof -
  obtain r1 st1 r2 st2 where
    loop1: "forEach (consumer_callback ev mhs ehs) (configured_consumers opts) (assigned opts) = (r1, st1)"
    and c: "construct ev mhs ehs (new_SqsService opts) = (r2, st2)"
    and none: "producers st1 = []"
    and failed: "r1 \<noteq> None \<longrightarrow> r2 = r1 \<and> st2 = st1"
    and went_on: "r1 = None \<longrightarrow> forEach (producer_callback ev) (configured_producers opts) st1 = (r2, st2)"
    by (rule construct_parts [of ev mhs ehs opts])
  from assms c have r2: "r2 = None" by simp
  with failed have r1: "r1 = None" by auto
  with went_on r2
  have loop2: "forEach (producer_callback ev) (configured_producers opts) st1 = (None, st2)"
    by simp
  note one = consumers_loop_success [OF loop1 [unfolded r1]]
  note two = producers_loop_success [OF loop2]
  note same = producers_loop_frame [OF loop2]
  show "Map_keys (consumers (snd (construct ev mhs ehs (new_SqsService opts))))
           = filter (handled mhs) (map co_name (configured_consumers opts))"
    using c one same by (simp add: assigned_fields Map_keys_def)
  show "Map_keys (producers (snd (construct ev mhs ehs (new_SqsService opts))))
           = map po_name (configured_producers opts)"
    using c two none by (simp add: Map_keys_def)
  show "calls (snd (construct ev mhs ehs (new_SqsService opts)))
           = concat (map (consumer_events mhs ehs) (configured_consumers opts))
             @ concat (map producer_events (configured_producers opts))"
    using c one two by (simp add: assigned_fields)
qed

lemma construct_events:
  assumes "e \<in> set (calls (snd (construct ev mhs ehs (new_SqsService opts))))"
  shows "(\<exists>c\<in>set (configured_consumers opts). e \<in> set (consumer_events mhs ehs c))
       \<or> (\<exists>p\<in>set (configured_producers opts). e \<in> set (producer_events p))"
proof -
  obtain r1 st1 r2 st2 where
    loop1: "forEach (consumer_callback ev mhs ehs) (configured_consumers opts) (assigned opts) = (r1, st1)"
    and c: "construct ev mhs ehs (new_SqsService opts) = (r2, st2)"
    and none: "producers st1 = []"
    and failed: "r1 \<noteq> None \<longrightarrow> r2 = r1 \<and> st2 = st1"
    and went_on: "r1 = None \<longrightarrow> forEach (producer_callback ev) (configured_producers opts) st1 = (r2, st2)"
    by (rule construct_parts [of ev mhs ehs opts])
  from assms c have in2: "e \<in> set (calls st2)" by simp
  have from1: "\<exists>c\<in>set (configured_consumers opts). e \<in> set (consumer_events mhs ehs c)"
    if "e \<in> set (calls st1)"
    using consumers_loop_events [OF loop1 that] by (simp add: assigned_fields)
  show ?thesis
  proof (cases r1)
    case None
    with went_on have "forEach (producer_callback ev) (configured_producers opts) st1 = (r2, st2)"
      by simp
    from producers_loop_events [OF this in2] from1 show ?thesis by blast
  next
    case (Some e')
    with failed in2 from1 show ?thesis by simp
  qed
qed

lemma construct_creates:
  assumes "Consumer_create n a \<in> set (calls (snd (construct ev mhs ehs (new_SqsService opts))))"
  shows "\<exists>c\<in>set (configured_consumers opts). \<exists>metadata.
           co_name c = n \<and> find (\<lambda>h. mh_name h = n) mhs = Some metadata
           \<and> a = createOptions (consumerOptions c) metadata"
proof -
  from construct_events [OF assms]
  obtain c where "c \<in> set (configured_consumers opts)"
    and "Consumer_create n a \<in> set (consumer_events mhs ehs c)"
    by (auto simp add: producer_events_def)
  then show ?thesis
    by (auto simp add: consumer_events_def addListener_calls_def split: option.splits)
qed

lemma construct_entries:
  assumes "(n, entry) \<in> set (consumers (snd (construct ev mhs ehs (new_SqsService opts))))"
  shows "\<exists>c\<in>set (configured_consumers opts). \<exists>metadata.
           co_name c = n \<and> find (\<lambda>h. mh_name h = n) mhs = Some metadata
           \<and> entry = built_entry ev (globalStopOptions (assigned opts)) ehs c metadata"
proof -
  obtain r1 st1 where
    loop1: "forEach (consumer_callback ev mhs ehs) (configured_consumers opts) (assigned opts) = (r1, st1)"
    by (cases "forEach (consumer_callback ev mhs ehs) (configured_consumers opts) (assigned opts)")
  with assms have "(n, entry) \<in> set (consumers st1)"
    by (simp add: construct_consumers)
  from consumers_loop_entries [OF loop1 this] show ?thesis
    by (simp add: assigned_fields)
qed

lemma construct_producers:
  assumes "(n, producer) \<in> set (producers (snd (construct ev mhs ehs (new_SqsService opts))))"
  shows "\<exists>p\<in>set (configured_producers opts).
           producer = Producer_create_instance ev (producerOptions p)"
proof -
  obtain r1 st1 r2 st2 where
    loop1: "forEach (consumer_callback ev mhs ehs) (configured_consumers opts) (assigned opts) = (r1, st1)"
    and c: "construct ev mhs ehs (new_SqsService opts) = (r2, st2)"
    and none: "producers st1 = []"
    and failed: "r1 \<noteq> None \<longrightarrow> r2 = r1 \<and> st2 = st1"
    and went_on: "r1 = None \<longrightarrow> forEach (producer_callback ev) (configured_producers opts) st1 = (r2, st2)"
    by (rule construct_parts [of ev mhs ehs opts])
  from assms c have in2: "(n, producer) \<in> set (producers st2)" by simp
  show ?thesis
  proof (cases r1)
    case None
    with went_on have "forEach (producer_callback ev) (configured_producers opts) st1 = (r2, st2)"
      by simp
    from producers_loop_entries [OF this in2] none show ?thesis by simp
  next
    case (Some e)
    with failed in2 none show ?thesis by simp
  qed
qed

lemma addListeners_fields:
  "handleMessage (addListeners metadata es c) = handleMessage c"
  "handleMessageBatch (addListeners metadata es c) = handleMessageBatch c"
  "sqs (addListeners metadata es c) = sqs c"
  "queueUrl (addListeners metadata es c) = queueUrl c"
  "listeners (addListeners metadata es c) = listeners c @ map (listenerOf metadata) es"
  by (induction es arbitrary: c) simp_all



lemma built_entry_listeners:
  "listeners (entry_instance (built_entry ev g ehs c metadata))
     = map (listenerOf metadata) (filter (\<lambda>e. eh_name e = co_name c) ehs)"
  by (simp add: built_entry_def addListeners_fields Consumer_create_instance_def)

lemma built_entry_client: "sqs (entry_instance (built_entry ev g ehs c metadata)) \<noteq> None"
  by (simp add: built_entry_def addListeners_fields Consumer_create_instance_def)

lemma start_callback_logs:
  "start_callback ev x s = (start_throws ev (entry_instance x), emit [start_call x] s)"
  by (simp add: start_callback_def start_call_def)

lemma stop_callback_logs:
  "stop_callback ev x s = (stop_throws ev (entry_instance x) (stopOptions x), emit [stop_call x] s)"
  by (simp add: stop_callback_def stop_call_def)

text \<open>What \<open>onModuleInit\<close> adds to the construction: start calls only, and only after success.\<close>

lemma onModuleInit_shape:
  obtains post where
    "snd (onModuleInit ev mhs ehs st) = emit post (snd (construct ev mhs ehs st))"
    "\<forall>e\<in>set post. is_start e"
    "fst (construct ev mhs ehs st) \<noteq> None \<longrightarrow> post = []"
proof -
  obtain r2 st2 where c: "construct ev mhs ehs st = (r2, st2)"
    by (cases "construct ev mhs ehs st")
  show thesis
  proof (cases r2)
    case (Some e)
    with c have "snd (onModuleInit ev mhs ehs st) = emit [] (snd (construct ev mhs ehs st))"
      by (simp add: onModuleInit_def emit_def)
    then show thesis using that [of "[]"] by simp
  next
    case None
    define post where "post = map start_call
      (take (Suc (length (takeWhile (\<lambda>x. start_throws ev (entry_instance x) = None)
         (Map_values (consumers st2))))) (Map_values (consumers st2)))"
    have "snd (onModuleInit ev mhs ehs st) = emit post (snd (construct ev mhs ehs st))"
      using c None
      by (simp add: onModuleInit_def post_def
            forEach_logging [where thr = "\<lambda>x. start_throws ev (entry_instance x)" and mk = start_call,
              OF start_callback_logs])
    moreover have "\<forall>e\<in>set post. is_start e"
      by (auto simp add: post_def start_call_def)
    ultimately show thesis using that [of post] c None by simp
  qed
qed

lemma not_start_consumer_events: "e \<in> set (consumer_events mhs ehs c) \<Longrightarrow> \<not> is_start e"
  by (auto simp add: consumer_events_def addListener_calls_def split: option.splits)

lemma not_start_producer_events: "e \<in> set (producer_events p) \<Longrightarrow> \<not> is_start e"
  by (auto simp add: producer_events_def)

lemma repeated_in_filter:
  assumes "i < j" "j < length xs" "xs ! i = xs ! j" "P (xs ! i)"
  shows "\<not> distinct (filter P xs)"
proof -
  have split: "xs = take j xs @ xs ! j # drop (Suc j) xs"
    using assms(2) by (rule id_take_nth_drop)
  have "xs ! i \<in> set (take j xs)"
    using assms(1,2) by (auto simp add: in_set_conv_nth intro!: exI [of _ i])
  with assms(3,4) have "xs ! j \<in> set (filter P (take j xs))" by simp
  moreover have "filter P xs = filter P (take j xs) @ xs ! j # filter P (drop (Suc j) xs)"
    using assms(3,4) by (subst split) simp
  ultimately show ?thesis by simp
qed

subsection \<open>The construction without the declarations of an unbound name\<close>

lemma consumer_step_unbound:
  assumes "find (\<lambda>h. mh_name h = n) mhs = None" and "\<not> Map_has (consumers s) n"
    and "co_name c = n" and "alike n s s'"
  shows "fst (consumer_callback ev mhs ehs c s) = None"
    and "alike n (snd (consumer_callback ev mhs ehs c s)) s'"
    and "\<not> Map_has (consumers (snd (consumer_callback ev mhs ehs c s))) n"
  using assms by (simp_all add: consumer_callback_cases consumer_events_def alike_def)

lemma consumer_step_alike:
  assumes "co_name c \<noteq> n" and "\<not> Map_has (consumers s) n" and "alike n s s'"
  shows "fst (consumer_callback ev mhs ehs c s') = fst (consumer_callback ev mhs ehs c s)"
    and "alike n (snd (consumer_callback ev mhs ehs c s)) (snd (consumer_callback ev mhs ehs c s'))"
    and "\<not> Map_has (consumers (snd (consumer_callback ev mhs ehs c s))) n"
  using assms
  by (auto simp add: consumer_callback_cases consumer_events_def addListener_calls_def alike_def
        Map_has_iff Map_keys_def split: option.splits)

lemma consumers_loop_alike:
  assumes "find (\<lambda>h. mh_name h = n) mhs = None"
  shows "\<not> Map_has (consumers s) n \<Longrightarrow> alike n s s' \<Longrightarrow>
     fst (forEach (consumer_callback ev mhs ehs) (filter (\<lambda>c. co_name c \<noteq> n) cs) s')
       = fst (forEach (consumer_callback ev mhs ehs) cs s)
     \<and> alike n (snd (forEach (consumer_callback ev mhs ehs) cs s))
          (snd (forEach (consumer_callback ev mhs ehs) (filter (\<lambda>c. co_name c \<noteq> n) cs) s'))"
proof (induction cs arbitrary: s s')
  case Nil
  then show ?case by simp
next
  case (Cons c cs)
  obtain r1 s1 where step: "consumer_callback ev mhs ehs c s = (r1, s1)"
    by (cases "consumer_callback ev mhs ehs c s")
  show ?case
  proof (cases "co_name c = n")
    case True
    from consumer_step_unbound [OF assms Cons.prems(1) True Cons.prems(2), of ev ehs] step
    have "r1 = None" "alike n s1 s'" "\<not> Map_has (consumers s1) n"
      by simp_all
    with Cons.IH [of s1 s'] True step show ?thesis by simp
  next
    case False
    obtain r1' s1' where step': "consumer_callback ev mhs ehs c s' = (r1', s1')"
      by (cases "consumer_callback ev mhs ehs c s'")
    from consumer_step_alike [OF False Cons.prems, of ev mhs ehs] step step'
    have rel: "r1' = r1" "alike n s1 s1'" "\<not> Map_has (consumers s1) n"
      by simp_all
    show ?thesis
    proof (cases r1)
      case None
      with Cons.IH [of s1 s1'] rel False step step' show ?thesis by simp
    next
      case (Some e)
      with rel False step step' show ?thesis by simp
    qed
  qed
qed

lemma producer_step_alike:
  assumes "alike n s s'"
  shows "fst (producer_callback ev p s') = fst (producer_callback ev p s)"
    and "alike n (snd (producer_callback ev p s)) (snd (producer_callback ev p s'))"
  using assms
  by (auto simp add: producer_callback_cases producer_events_def alike_def split: option.splits)

lemma producers_loop_alike:
  "alike n s s' \<Longrightarrow>
     fst (forEach (producer_callback ev) ps s') = fst (forEach (producer_callback ev) ps s)
     \<and> alike n (snd (forEach (producer_callback ev) ps s)) (snd (forEach (producer_callback ev) ps s'))"
proof (induction ps arbitrary: s s')
  case Nil
  then show ?case by simp
next
  case (Cons p ps)
  obtain r1 s1 where step: "producer_callback ev p s = (r1, s1)"
    by (cases "producer_callback ev p s")
  obtain r1' s1' where step': "producer_callback ev p s' = (r1', s1')"
    by (cases "producer_callback ev p s'")
  from producer_step_alike [OF Cons.prems, of ev p] step step'
  have rel: "r1' = r1" "alike n s1 s1'"
    by simp_all
  show ?case
  proof (cases r1)
    case None
    with Cons.IH [of s1 s1'] rel step step' show ?thesis by simp
  next
    case (Some e)
    with rel step step' show ?thesis by simp
  qed
qed

lemma without_fields:
  "configured_consumers (without n opts) = filter (\<lambda>c. co_name c \<noteq> n) (configured_consumers opts)"
  "configured_producers (without n opts) = configured_producers opts"
  by (simp_all add: without_def configured_consumers_def configured_producers_def)

lemma assigned_without: "alike n (assigned opts) (assigned (without n opts))"
  by (simp add: alike_def assigned_def new_SqsService_def without_def)

lemma construct_without:
  assumes "find (\<lambda>h. mh_name h = n) mhs = None"
  shows "fst (construct ev mhs ehs (new_SqsService (without n opts)))
           = fst (construct ev mhs ehs (new_SqsService opts))"
    and "alike n (snd (construct ev mhs ehs (new_SqsService opts)))
           (snd (construct ev mhs ehs (new_SqsService (without n opts))))"
proof -
  let ?cs = "configured_consumers opts"
  obtain r1 s1 where
    loop: "forEach (consumer_callback ev mhs ehs) ?cs (assigned opts) = (r1, s1)"
    by (cases "forEach (consumer_callback ev mhs ehs) ?cs (assigned opts)")
  obtain r1' s1' where
    loop': "forEach (consumer_callback ev mhs ehs) (filter (\<lambda>c. co_name c \<noteq> n) ?cs)
              (assigned (without n opts)) = (r1', s1')"
    by (cases "forEach (consumer_callback ev mhs ehs) (filter (\<lambda>c. co_name c \<noteq> n) ?cs)
                 (assigned (without n opts))")
  have "\<not> Map_has (consumers (assigned opts)) n"
    by (simp add: assigned_fields Map_has_def)
  from consumers_loop_alike [OF assms this assigned_without, of ev ehs ?cs] loop loop'
  have rel: "r1' = r1" "alike n s1 s1'"
    by simp_all
  have both: "fst (construct ev mhs ehs (new_SqsService (without n opts)))
           = fst (construct ev mhs ehs (new_SqsService opts))
       \<and> alike n (snd (construct ev mhs ehs (new_SqsService opts)))
           (snd (construct ev mhs ehs (new_SqsService (without n opts))))"
  proof (cases r1)
    case None
    with producers_loop_alike [OF rel(2), of ev "configured_producers opts"] rel(1) loop loop'
    show ?thesis by (simp add: construct_fresh without_fields)
  next
    case (Some e)
    with rel loop loop' show ?thesis by (simp add: construct_fresh without_fields)
  qed
  from both show "fst (construct ev mhs ehs (new_SqsService (without n opts)))
           = fst (construct ev mhs ehs (new_SqsService opts))"
    by simp
  from both show "alike n (snd (construct ev mhs ehs (new_SqsService opts)))
           (snd (construct ev mhs ehs (new_SqsService (without n opts))))"
    by simp
qed

subsection \<open>Duplicate consumer declarations\<close>

text \<open>
  C2, as the specification states it, fails: two declarations with the same queue name do
  not make the construction fail when no message handler is bound to that name. Each of
  the two is skipped with a warning, and \<open>onModuleInit\<close> returns normally.
\<close>

theorem duplicate_consumer_counterexample:
  "co_name (configured_consumers twice_orphan ! 0) = co_name (configured_consumers twice_orphan ! 1)
   \<and> fst (onModuleInit quiet shop_handlers [] (new_SqsService twice_orphan)) = None
   \<and> calls (snd (onModuleInit quiet shop_handlers [] (new_SqsService twice_orphan)))
       = [Logger_warn ''No metadata found for: orphan'',
          Logger_warn ''No metadata found for: orphan'']"
  by (simp add: run_defs example_defs split del: if_split cong: if_weak_cong)

text \<open>
  C2, amended. When the consumer declarations hold the same queue name at two positions,
  a message handler is bound to that name, and \<open>Consumer.create\<close> returns on every
  declaration before the second position, \<open>onModuleInit\<close> throws
  "Consumer already exists: n" at a declaration k, no later than the second of the two
  positions, whose name n was declared before; the calls made on collaborators are those of
  the declarations before k and no other: nothing is created for declaration k or any
  later one, no producer is created and no consumer is started.
\<close>

theorem duplicate_consumer_with_handler_is_fatal:
  assumes "i < j" and "j < length (configured_consumers opts)"
    and "co_name (configured_consumers opts ! i) = co_name (configured_consumers opts ! j)"
    and "handled mhs (co_name (configured_consumers opts ! i))"
    and "list_all (creates ev mhs) (take j (configured_consumers opts))"
  shows "\<exists>k\<le>j.
           fst (onModuleInit ev mhs ehs (new_SqsService opts))
             = Some (Error (''Consumer already exists: '' @ co_name (configured_consumers opts ! k)))
           \<and> co_name (configured_consumers opts ! k)
               \<in> co_name ` set (take k (configured_consumers opts))
           \<and> calls (snd (onModuleInit ev mhs ehs (new_SqsService opts)))
               = concat (map (consumer_events mhs ehs) (take k (configured_consumers opts)))"
proof -
  define cs where "cs = configured_consumers opts"
  define names where "names = map co_name cs"
  have rep: "i < j" "j < length names" "names ! i = names ! j" "handled mhs (names ! i)"
    using assms by (simp_all add: names_def cs_def)
  then have "\<not> distinct (filter (handled mhs) names)"
    by (rule repeated_in_filter)
  then have "fst (forEach (consumer_callback ev mhs ehs) cs (assigned opts)) \<noteq> None"
    by (simp add: consumers_loop_ok_iff names_def)
  then obtain e st' where loop: "forEach (consumer_callback ev mhs ehs) cs (assigned opts) = (Some e, st')"
    by (cases "forEach (consumer_callback ev mhs ehs) cs (assigned opts)") auto
  then have init: "onModuleInit ev mhs ehs (new_SqsService opts) = (Some e, st')"
    by (simp add: onModuleInit_def construct_fresh cs_def)
  from consumers_loop_throws [OF loop] obtain k sk where
    k: "k < length cs"
    and pre: "forEach (consumer_callback ev mhs ehs) (take k cs) (assigned opts) = (None, sk)"
    and how: "(Map_has (consumers sk) (co_name (cs ! k)) \<and> st' = sk
                \<and> e = Error (''Consumer already exists: '' @ co_name (cs ! k)))
              \<or> (\<not> Map_has (consumers sk) (co_name (cs ! k)) \<and> \<not> creates ev mhs (cs ! k))"
    by blast
  from consumers_loop_success [OF pre]
  have keys: "Map_keys (consumers sk) = filter (handled mhs) (map co_name (take k cs))"
    and log: "calls sk = concat (map (consumer_events mhs ehs) (take k cs))"
    by (simp_all add: assigned_fields Map_keys_def)
  have "k \<le> j"
  proof (rule ccontr)
    assume "\<not> k \<le> j"
    then have "j < length (take k names)" "take k names ! i = take k names ! j"
      "handled mhs (take k names ! i)"
      using rep k by (simp_all add: names_def)
    with rep(1) have "\<not> distinct (filter (handled mhs) (take k names))"
      by (rule repeated_in_filter)
    moreover from pre have "fst (forEach (consumer_callback ev mhs ehs) (take k cs) (assigned opts)) = None"
      by simp
    ultimately show False
      by (simp add: consumers_loop_ok_iff names_def take_map)
  qed
  have made: "creates ev mhs (cs ! k)" if "k < j"
  proof -
    from that rep(2) have "cs ! k \<in> set (take j cs)"
      by (auto simp add: in_set_conv_nth names_def intro!: exI [of _ k])
    with assms(5) show ?thesis by (simp add: list_all_iff cs_def)
  qed
  have stored: "Map_has (consumers sk) (co_name (cs ! k))" if "k = j"
  proof -
    from rep(1,2) that have "cs ! i \<in> set (take k cs)"
      by (auto simp add: in_set_conv_nth names_def intro!: exI [of _ i])
    moreover from rep have "handled mhs (co_name (cs ! i))" "co_name (cs ! i) = co_name (cs ! j)"
      by (simp_all add: names_def)
    ultimately have "co_name (cs ! i) \<in> set (filter (handled mhs) (map co_name (take k cs)))"
      "co_name (cs ! i) = co_name (cs ! j)"
      by (simp_all add: image_iff) metis
    with keys that show ?thesis by (simp add: Map_has_iff)
  qed
  from how made stored \<open>k \<le> j\<close>
  have dup: "Map_has (consumers sk) (co_name (cs ! k))" "st' = sk"
    "e = Error (''Consumer already exists: '' @ co_name (cs ! k))"
    by (cases "k = j"; auto)+
  from dup(1) keys have earlier: "co_name (cs ! k) \<in> co_name ` set (take k cs)"
    by (auto simp add: Map_has_iff)
  from init dup(2,3) earlier log \<open>k \<le> j\<close> show ?thesis
    unfolding cs_def by auto
qed

theorem duplicate_consumer_with_handler_is_fatal_witness:
  "(0::nat) < 1 \<and> 1 < length (configured_consumers twice_orders)
   \<and> co_name (configured_consumers twice_orders ! 0) = co_name (configured_consumers twice_orders ! 1)
   \<and> handled shop_handlers (co_name (configured_consumers twice_orders ! 0))
   \<and> list_all (creates quiet shop_handlers) (take 1 (configured_consumers twice_orders))
   \<and> fst (onModuleInit quiet shop_handlers [orders_error_listener] (new_SqsService twice_orders))
       = Some (Error ''Consumer already exists: orders'')"
proof -
  have h1: "(0::nat) < 1" by simp
  have h2: "1 < length (configured_consumers twice_orders)"
    by (simp add: run_defs example_defs split del: if_split cong: if_weak_cong)
  have h3: "co_name (configured_consumers twice_orders ! 0)
              = co_name (configured_consumers twice_orders ! 1)"
    by (simp add: run_defs example_defs split del: if_split cong: if_weak_cong)
  have h4: "handled shop_handlers (co_name (configured_consumers twice_orders ! 0))"
    by (simp add: run_defs example_defs split del: if_split cong: if_weak_cong)
  have h5: "list_all (creates quiet shop_handlers) (take 1 (configured_consumers twice_orders))"
    by (simp add: run_defs example_defs split del: if_split cong: if_weak_cong)
  from duplicate_consumer_with_handler_is_fatal
         [OF h1 h2 h3 h4 h5, of "[orders_error_listener]"]
  obtain k where k: "k \<le> 1"
    and thrown: "fst (onModuleInit quiet shop_handlers [orders_error_listener]
                       (new_SqsService twice_orders))
                   = Some (Error (''Consumer already exists: ''
                                    @ co_name (configured_consumers twice_orders ! k)))"
    and earlier: "co_name (configured_consumers twice_orders ! k)
                    \<in> co_name ` set (take k (configured_consumers twice_orders))"
    by blast
  from earlier have "k \<noteq> 0" by (cases k) auto
  with k have "k = 1" by simp
  moreover have "co_name (configured_consumers twice_orders ! 1) = ''orders''"
    by (simp add: run_defs example_defs split del: if_split cong: if_weak_cong)
  ultimately show ?thesis using thrown h1 h2 h3 h4 h5 by simp
qed

subsection \<open>Consumer declarations without a binding\<close>

text \<open>
  C3. A declared consumer queue name n without a message-handler binding never makes the
  construction fail. The construction succeeds exactly when no bound consumer name and no
  producer name is declared twice and no factory call throws, a condition that asks nothing
  of n; and it ends as it does with the declarations of n taken out: the same error or the
  same success, the same consumer map, the same producer map, and the same calls but for the
  warnings about n. Whatever the outcome, no consumer is created for n and n is absent from
  the consumer map. When the construction succeeds, the warning "No metadata found for: n"
  has been logged and the consumer map holds exactly the declared names that have a binding,
  in declaration order. And the callback itself, on a declaration of n, does nothing but log
  that warning and return.
\<close>

theorem unhandled_consumer_is_skipped:
  assumes "n \<in> co_name ` set (configured_consumers opts)" and "\<not> handled mhs n"
  shows "(fst (construct ev mhs ehs (new_SqsService opts)) = None \<longleftrightarrow> unobstructed ev mhs opts)
       \<and> fst (construct ev mhs ehs (new_SqsService (without n opts)))
           = fst (construct ev mhs ehs (new_SqsService opts))
       \<and> alike n (snd (construct ev mhs ehs (new_SqsService opts)))
           (snd (construct ev mhs ehs (new_SqsService (without n opts))))
       \<and> \<not> Map_has (consumers (snd (construct ev mhs ehs (new_SqsService opts)))) n
       \<and> (\<forall>a. Consumer_create n a \<notin> set (calls (snd (construct ev mhs ehs (new_SqsService opts)))))
       \<and> (fst (construct ev mhs ehs (new_SqsService opts)) = None \<longrightarrow>
            Logger_warn (''No metadata found for: '' @ n)
              \<in> set (calls (snd (construct ev mhs ehs (new_SqsService opts))))
            \<and> Map_keys (consumers (snd (construct ev mhs ehs (new_SqsService opts))))
                = filter (handled mhs) (map co_name (configured_consumers opts)))
       \<and> (\<forall>c st. co_name c = n \<and> \<not> Map_has (consumers st) n \<longrightarrow>
              consumer_callback ev mhs ehs c st
                = (None, emit [Logger_warn (''No metadata found for: '' @ n)] st))"
proof -
  have unbound: "find (\<lambda>h. mh_name h = n) mhs = None"
    using assms(2) by (simp add: handled_def)
  note ok = construct_ok_iff [of ev mhs ehs opts]
  note same = construct_without [OF unbound, of ev ehs opts]
  have absent: "\<not> Map_has (consumers (snd (construct ev mhs ehs (new_SqsService opts)))) n"
  proof
    assume "Map_has (consumers (snd (construct ev mhs ehs (new_SqsService opts)))) n"
    then obtain entry where
      "(n, entry) \<in> set (consumers (snd (construct ev mhs ehs (new_SqsService opts))))"
      by (auto simp add: Map_has_iff Map_keys_def)
    from construct_entries [OF this] unbound show False by auto
  qed
  have not_created:
    "Consumer_create n a \<notin> set (calls (snd (construct ev mhs ehs (new_SqsService opts))))" for a
  proof
    assume "Consumer_create n a \<in> set (calls (snd (construct ev mhs ehs (new_SqsService opts))))"
    from construct_creates [OF this] unbound show False by auto
  qed
  have logged: "Logger_warn (''No metadata found for: '' @ n)
              \<in> set (calls (snd (construct ev mhs ehs (new_SqsService opts))))
            \<and> Map_keys (consumers (snd (construct ev mhs ehs (new_SqsService opts))))
                = filter (handled mhs) (map co_name (configured_consumers opts))"
    if success: "fst (construct ev mhs ehs (new_SqsService opts)) = None"
  proof -
    from assms(1) obtain c where c: "c \<in> set (configured_consumers opts)" "co_name c = n"
      by auto
    with unbound
    have "Logger_warn (''No metadata found for: '' @ n) \<in> set (consumer_events mhs ehs c)"
      by (simp add: consumer_events_def)
    with c(1) construct_success(1,3) [OF success] show ?thesis by auto
  qed
  have step: "consumer_callback ev mhs ehs c st
                = (None, emit [Logger_warn (''No metadata found for: '' @ n)] st)"
    if "co_name c = n" "\<not> Map_has (consumers st) n" for c st
    using that unbound by (simp add: consumer_callback_def)
  from ok same absent not_created logged step show ?thesis by blast
qed

theorem unhandled_consumer_is_skipped_witness:
  "''orphan'' \<in> co_name ` set (configured_consumers shop)
   \<and> \<not> handled shop_handlers ''orphan''
   \<and> fst shop_built = None
   \<and> unobstructed quiet shop_handlers shop
   \<and> fst (construct quiet shop_handlers [orders_error_listener]
              (new_SqsService (without ''orphan'' shop))) = None
   \<and> consumers (snd (construct quiet shop_handlers [orders_error_listener]
                         (new_SqsService (without ''orphan'' shop))))
       = consumers (snd shop_built)
   \<and> Logger_warn ''No metadata found for: orphan'' \<in> set (calls (snd shop_built))
   \<and> \<not> Map_has (consumers (snd shop_built)) ''orphan''
   \<and> Map_keys (consumers (snd shop_built)) = [''orders'', ''audit'']"
proof -
  have h1: "''orphan'' \<in> co_name ` set (configured_consumers shop)"
    by (simp add: run_defs example_defs split del: if_split cong: if_weak_cong)
  have h2: "\<not> handled shop_handlers ''orphan''"
    by (simp add: run_defs example_defs split del: if_split cong: if_weak_cong)
  have names: "filter (handled shop_handlers) (map co_name (configured_consumers shop))
                 = [''orders'', ''audit'']"
    by (simp add: run_defs example_defs split del: if_split cong: if_weak_cong)
  have built: "fst shop_built = None"
    by (simp add: shop_built_def run_defs example_defs split del: if_split cong: if_weak_cong)
  from unhandled_consumer_is_skipped
         [OF h1 h2, of quiet "[orders_error_listener]", folded shop_built_def]
       h1 h2 built names
  show ?thesis by (simp add: alike_def)
qed

subsection \<open>The callback kind of a constructed poller\<close>




subsection \<open>The receiver of the event listeners\<close>

text \<open>
  C10. Every poller in the consumer map after \<open>onModuleInit\<close> has as its listeners the
  event-handler bindings of its queue name, in discovery order, each under its event name
  and each a function bound to the owner instance of the MESSAGE handler matched for that
  queue, not to the owner instance of the event-handler binding; and every
  \<open>addListener\<close> call that \<open>onModuleInit\<close> makes passes such a function.
\<close>

theorem listeners_receive_message_handler_owner:
  "(\<forall>n entry. (n, entry) \<in> set (consumers (snd (onModuleInit ev mhs ehs (new_SqsService opts))))
          \<longrightarrow> (\<exists>metadata. find (\<lambda>h. mh_name h = n) mhs = Some metadata
                 \<and> listeners (entry_instance entry)
                     = map (\<lambda>e. (eh_eventName e, Bind (eh_handler e) (mh_instance metadata)))
                         (filter (\<lambda>e. eh_name e = n) ehs)))
   \<and> (\<forall>n eventName b.
         Consumer_addListener n eventName b
           \<in> set (calls (snd (onModuleInit ev mhs ehs (new_SqsService opts))))
         \<longrightarrow> (\<exists>metadata e. find (\<lambda>h. mh_name h = n) mhs = Some metadata \<and> e \<in> set ehs
                \<and> eh_name e = n \<and> eventName = eh_eventName e
                \<and> b = Bind (eh_handler e) (mh_instance metadata)))"
proof -
  define st2 where "st2 = snd (construct ev mhs ehs (new_SqsService opts))"
  obtain post where
    post: "snd (onModuleInit ev mhs ehs (new_SqsService opts)) = emit post st2"
      "\<forall>e\<in>set post. is_start e"
      "fst (construct ev mhs ehs (new_SqsService opts)) \<noteq> None \<longrightarrow> post = []"
    unfolding st2_def by (rule onModuleInit_shape [of ev mhs ehs "new_SqsService opts"])
  have stored: "\<exists>metadata. find (\<lambda>h. mh_name h = n) mhs = Some metadata
                 \<and> listeners (entry_instance entry)
                     = map (\<lambda>e. (eh_eventName e, Bind (eh_handler e) (mh_instance metadata)))
                         (filter (\<lambda>e. eh_name e = n) ehs)"
    if "(n, entry) \<in> set (consumers (emit post st2))" for n entry
  proof -
    from that have "(n, entry) \<in> set (consumers st2)" by (simp add: emit_def)
    from construct_entries [OF this [unfolded st2_def]] obtain c metadata where
      "co_name c = n" "find (\<lambda>h. mh_name h = n) mhs = Some metadata"
      "entry = built_entry ev (globalStopOptions (assigned opts)) ehs c metadata"
      by blast
    then show ?thesis
      by (auto simp add: built_entry_listeners listenerOf_def)
  qed
  have added: "\<exists>metadata e. find (\<lambda>h. mh_name h = n) mhs = Some metadata \<and> e \<in> set ehs
                \<and> eh_name e = n \<and> eventName = eh_eventName e
                \<and> b = Bind (eh_handler e) (mh_instance metadata)"
    if "Consumer_addListener n eventName b \<in> set (calls (emit post st2))" for n eventName b
  proof -
    from that post(2) have "Consumer_addListener n eventName b \<in> set (calls st2)"
      by (auto simp add: emit_def)
    from construct_events [OF this [unfolded st2_def]]
    obtain c where "Consumer_addListener n eventName b \<in> set (consumer_events mhs ehs c)"
      by (auto simp add: producer_events_def)
    then show ?thesis
      by (auto simp add: consumer_events_def addListener_calls_def listenerOf_def
            split: option.splits)
  qed
  from stored added show ?thesis
    unfolding post(1) by blast
qed


theorem listeners_receive_message_handler_owner_witness:
  "(''orders'', built_entry quiet (Some \<lparr>abort = None\<rparr>) [orders_error_listener]
                  (declared ''orders'' 1) orders_handler)
     \<in> set (consumers (snd shop_run))
   \<and> listeners (entry_instance (built_entry quiet (Some \<lparr>abort = None\<rparr>) [orders_error_listener]
                                    (declared ''orders'' 1) orders_handler))
       = [(''error'', Bind (Fn 3) (Instance 1))]
   \<and> mh_instance orders_handler = Instance 1
   \<and> eh_instance orders_error_listener = Instance 3
   \<and> Consumer_addListener ''orders'' ''error'' (Bind (Fn 3) (Instance 1))
       \<in> set (calls (snd shop_run))"
proof -
  note claim = listeners_receive_message_handler_owner
                 [of quiet shop_handlers "[orders_error_listener]" shop, folded shop_run_def]
  have stored: "(''orders'', built_entry quiet (Some \<lparr>abort = None\<rparr>) [orders_error_listener]
                     (declared ''orders'' 1) orders_handler)
                  \<in> set (consumers (snd shop_run))"
    by (simp add: shop_run_def built_entry_def run_defs example_defs
          split del: if_split cong: if_weak_cong)
  have added: "Consumer_addListener ''orders'' ''error'' (Bind (Fn 3) (Instance 1))
                 \<in> set (calls (snd shop_run))"
    by (simp add: shop_run_def run_defs example_defs split del: if_split cong: if_weak_cong)
  have orders: "find (\<lambda>h. mh_name h = ''orders'') shop_handlers = Some orders_handler"
    by (simp add: run_defs example_defs split del: if_split cong: if_weak_cong)
  from claim stored orders
  have "listeners (entry_instance (built_entry quiet (Some \<lparr>abort = None\<rparr>) [orders_error_listener]
                                    (declared ''orders'' 1) orders_handler))
          = map (\<lambda>e. (eh_eventName e, Bind (eh_handler e) (mh_instance orders_handler)))
              (filter (\<lambda>e. eh_name e = ''orders'') [orders_error_listener])"
    by fastforce
  then have "listeners (entry_instance (built_entry quiet (Some \<lparr>abort = None\<rparr>) [orders_error_listener]
                                    (declared ''orders'' 1) orders_handler))
          = [(''error'', Bind (Fn 3) (Instance 1))]"
    by (simp add: orders_error_listener_def orders_handler_def)
  with stored added show ?thesis
    by (simp add: orders_error_listener_def orders_handler_def)
qed

subsection \<open>Starting after the construction\<close>

text \<open>
  C9. The calls that \<open>onModuleInit\<close> makes from a fresh service are the calls of the
  construction, none of which starts a consumer, followed by start calls only; the start
  pass changes neither map; and when any consumer is started, the construction has
  completed without error and the maps hold every declared consumer that has a binding and
  every declared producer.
\<close>

theorem consumers_start_after_construction:
  "\<exists>post.
     calls (snd (onModuleInit ev mhs ehs (new_SqsService opts)))
       = calls (snd (construct ev mhs ehs (new_SqsService opts))) @ post
     \<and> (\<forall>e\<in>set (calls (snd (construct ev mhs ehs (new_SqsService opts)))). \<not> is_start e)
     \<and> (\<forall>e\<in>set post. is_start e)
     \<and> consumers (snd (onModuleInit ev mhs ehs (new_SqsService opts)))
         = consumers (snd (construct ev mhs ehs (new_SqsService opts)))
     \<and> producers (snd (onModuleInit ev mhs ehs (new_SqsService opts)))
         = producers (snd (construct ev mhs ehs (new_SqsService opts)))
     \<and> (post \<noteq> [] \<longrightarrow>
          fst (construct ev mhs ehs (new_SqsService opts)) = None
          \<and> Map_keys (consumers (snd (construct ev mhs ehs (new_SqsService opts))))
              = filter (handled mhs) (map co_name (configured_consumers opts))
          \<and> Map_keys (producers (snd (construct ev mhs ehs (new_SqsService opts))))
              = map po_name (configured_producers opts))"
proof -
  obtain post where
    post: "snd (onModuleInit ev mhs ehs (new_SqsService opts))
             = emit post (snd (construct ev mhs ehs (new_SqsService opts)))"
      "\<forall>e\<in>set post. is_start e"
      "fst (construct ev mhs ehs (new_SqsService opts)) \<noteq> None \<longrightarrow> post = []"
    by (rule onModuleInit_shape [of ev mhs ehs "new_SqsService opts"])
  have quiet: "\<forall>e\<in>set (calls (snd (construct ev mhs ehs (new_SqsService opts)))). \<not> is_start e"
    using construct_events not_start_consumer_events not_start_producer_events by blast
  have "post \<noteq> [] \<longrightarrow>
          fst (construct ev mhs ehs (new_SqsService opts)) = None
          \<and> Map_keys (consumers (snd (construct ev mhs ehs (new_SqsService opts))))
              = filter (handled mhs) (map co_name (configured_consumers opts))
          \<and> Map_keys (producers (snd (construct ev mhs ehs (new_SqsService opts))))
              = map po_name (configured_producers opts)"
    using post(3) construct_success(1,2) [of ev mhs ehs opts] by auto
  with post(1,2) quiet show ?thesis
    by (intro exI [of _ post]) (simp add: emit_def)
qed

theorem consumers_start_after_construction_witness:
  "\<exists>post. calls (snd shop_run) = calls (snd shop_built) @ post
      \<and> post \<noteq> []
      \<and> (\<forall>e\<in>set post. is_start e)
      \<and> (\<forall>e\<in>set (calls (snd shop_built)). \<not> is_start e)
      \<and> fst shop_built = None
      \<and> Map_keys (consumers (snd shop_built)) = [''orders'', ''audit'']
      \<and> Map_keys (producers (snd shop_built)) = [''out'']"
proof -
  from consumers_start_after_construction
         [of quiet shop_handlers "[orders_error_listener]" shop, folded shop_run_def shop_built_def]
  obtain post where
    split: "calls (snd shop_run) = calls (snd shop_built) @ post"
    and before: "\<forall>e\<in>set (calls (snd shop_built)). \<not> is_start e"
    and after: "\<forall>e\<in>set post. is_start e"
    and complete: "post \<noteq> [] \<longrightarrow>
          fst shop_built = None
          \<and> Map_keys (consumers (snd shop_built))
              = filter (handled shop_handlers) (map co_name (configured_consumers shop))
          \<and> Map_keys (producers (snd shop_built)) = map po_name (configured_producers shop)"
    by blast
  have "length (calls (snd shop_run)) = 7"
    by (simp add: shop_run_def run_defs example_defs split del: if_split cong: if_weak_cong)
  moreover have "length (calls (snd shop_built)) = 5"
    by (simp add: shop_built_def run_defs example_defs split del: if_split cong: if_weak_cong)
  ultimately have started: "post \<noteq> []" using split by auto
  have names: "filter (handled shop_handlers) (map co_name (configured_consumers shop))
                 = [''orders'', ''audit'']"
    by (simp add: run_defs example_defs split del: if_split cong: if_weak_cong)
  have senders: "map po_name (configured_producers shop) = [''out'']"
    by (simp add: run_defs example_defs split del: if_split cong: if_weak_cong)
  from split before after complete started names senders show ?thesis
    by (intro exI [of _ post]) simp
qed

subsection \<open>Queue resolution\<close>

text \<open>
  C5. Every instance that \<open>onModuleInit\<close> stores in the two maps has a client. On a
  registry whose instances have one, \<open>getQueueInfo\<close> returns the client and the queue
  address of the consumer map's entry when the name is there, of the producer map's entry
  otherwise, and throws "Consumer/Producer does not exist: name" when the name is in
  neither map. In particular, for a name held by both maps, \<open>purgeQueue\<close> sends its
  command on the consumer's client.
\<close>

theorem getQueueInfo_resolution:
  "carries_clients (snd (onModuleInit ev mhs ehs (new_SqsService opts)))
   \<and> (carries_clients st \<longrightarrow>
        (\<forall>entry. Map_get (consumers st) name = Some entry \<longrightarrow>
           (\<exists>client. sqs (entry_instance entry) = Some client
              \<and> getQueueInfo st name = Inr (client, queueUrl (entry_instance entry))
              \<and> (purgeQueue st name :: error + ('t, 'z) promise)
                  = Inr (Awaits (SqsSend client
                                   (PurgeQueueCommand (queueUrl (entry_instance entry)))))))
        \<and> (Map_get (consumers st) name = None \<longrightarrow>
             (\<forall>producer. Map_get (producers st) name = Some producer \<longrightarrow>
                (\<exists>client. sqs producer = Some client
                   \<and> getQueueInfo st name = Inr (client, queueUrl producer))))
        \<and> (Map_get (consumers st) name = None \<and> Map_get (producers st) name = None \<longrightarrow>
             getQueueInfo st name = Inl (Error (''Consumer/Producer does not exist: '' @ name))))"
proof (intro conjI impI allI)
  obtain post where
    post: "snd (onModuleInit ev mhs ehs (new_SqsService opts))
             = emit post (snd (construct ev mhs ehs (new_SqsService opts)))"
      "\<forall>e\<in>set post. is_start e"
      "fst (construct ev mhs ehs (new_SqsService opts)) \<noteq> None \<longrightarrow> post = []"
    by (rule onModuleInit_shape [of ev mhs ehs "new_SqsService opts"])
  have pollers: "sqs (entry_instance entry) \<noteq> None"
    if "(n, entry) \<in> set (consumers (snd (construct ev mhs ehs (new_SqsService opts))))" for n entry
  proof -
    from construct_entries [OF that] obtain c metadata where
      "entry = built_entry ev (globalStopOptions (assigned opts)) ehs c metadata"
      by blast
    then show ?thesis by (simp only: built_entry_client not_False_eq_True)
  qed
  have senders: "sqs producer \<noteq> None"
    if "(n, producer) \<in> set (producers (snd (construct ev mhs ehs (new_SqsService opts))))"
    for n producer
    using construct_producers [OF that] by (auto simp add: Producer_create_instance_def)
  from pollers senders
  show "carries_clients (snd (onModuleInit ev mhs ehs (new_SqsService opts)))"
    unfolding post(1) by (auto simp add: carries_clients_def list_all_iff Map_values_def emit_def)
next
  fix entry
  assume ok: "carries_clients st" and found: "Map_get (consumers st) name = Some entry"
  from Map_get_in [OF found] ok obtain client where client: "sqs (entry_instance entry) = Some client"
    by (auto simp add: carries_clients_def list_all_iff)
  have info: "getQueueInfo st name = Inr (client, queueUrl (entry_instance entry))"
    using found client
    by (simp add: getQueueInfo_def resolve_instance_def Map_has_def Map_get_def
          QueueSettings.truncate_def)
  then have "(purgeQueue st name :: error + ('t, 'z) promise)
      = Inr (Awaits (SqsSend client (PurgeQueueCommand (queueUrl (entry_instance entry)))))"
    by (simp add: purgeQueue_def async_def)
  with client info
  show "\<exists>client. sqs (entry_instance entry) = Some client
              \<and> getQueueInfo st name = Inr (client, queueUrl (entry_instance entry))
              \<and> (purgeQueue st name :: error + ('t, 'z) promise)
                  = Inr (Awaits (SqsSend client
                                   (PurgeQueueCommand (queueUrl (entry_instance entry)))))"
    by (intro exI [of _ client]) simp
next
  fix producer
  assume ok: "carries_clients st" and none: "Map_get (consumers st) name = None"
    and found: "Map_get (producers st) name = Some producer"
  from Map_get_in [OF found] ok obtain client where client: "sqs producer = Some client"
    by (auto simp add: carries_clients_def list_all_iff)
  have "getQueueInfo st name = Inr (client, queueUrl producer)"
    using none found client
    by (simp add: getQueueInfo_def resolve_instance_def Map_has_def Map_get_def)
  with client
  show "\<exists>client. sqs producer = Some client \<and> getQueueInfo st name = Inr (client, queueUrl producer)"
    by (intro exI [of _ client]) simp
next
  assume "carries_clients st"
    and "Map_get (consumers st) name = None \<and> Map_get (producers st) name = None"
  then show "getQueueInfo st name = Inl (Error (''Consumer/Producer does not exist: '' @ name))"
    by (simp add: getQueueInfo_def Map_has_def Map_get_def)
qed

theorem getQueueInfo_resolution_witness:
  "carries_clients q_registry
   \<and> Map_get (consumers q_registry) ''Q''
       = Some (built_entry quiet (Some \<lparr>abort = None\<rparr>) [] (declared ''Q'' 1) q_handler)
   \<and> Map_get (producers q_registry) ''Q''
       = Some \<lparr>sqs = Some (SQSClient 2), queueUrl = ''https://sqs/Q-out''\<rparr>
   \<and> getQueueInfo q_registry ''Q'' = Inr (SQSClient 1, ''https://sqs/Q'')
   \<and> (purgeQueue q_registry ''Q'' :: error + (nat, unit) promise)
       = Inr (Awaits (SqsSend (SQSClient 1) (PurgeQueueCommand ''https://sqs/Q'')))"
proof -
  note claim = getQueueInfo_resolution
                 [of quiet "[q_handler]" "[]" q_options q_registry "''Q''", folded q_registry_def,
                  where ?'t = nat and ?'z = unit]
  from claim have ok: "carries_clients q_registry" by simp
  have c: "Map_get (consumers q_registry) ''Q''
       = Some (built_entry quiet (Some \<lparr>abort = None\<rparr>) [] (declared ''Q'' 1) q_handler)"
    by (simp add: q_registry_def built_entry_def run_defs example_defs
          split del: if_split cong: if_weak_cong)
  have p: "Map_get (producers q_registry) ''Q''
       = Some \<lparr>sqs = Some (SQSClient 2), queueUrl = ''https://sqs/Q-out''\<rparr>"
    by (simp add: q_registry_def run_defs example_defs split del: if_split cong: if_weak_cong)
  have inst: "sqs (entry_instance (built_entry quiet (Some \<lparr>abort = None\<rparr>) [] (declared ''Q'' 1)
                                      q_handler)) = Some (SQSClient 1)"
    "queueUrl (entry_instance (built_entry quiet (Some \<lparr>abort = None\<rparr>) [] (declared ''Q'' 1)
                                q_handler)) = ''https://sqs/Q''"
    by (simp_all add: built_entry_def run_defs example_defs)
  from claim ok c
  obtain client where
    "sqs (entry_instance (built_entry quiet (Some \<lparr>abort = None\<rparr>) [] (declared ''Q'' 1)
                            q_handler)) = Some client"
    "getQueueInfo q_registry ''Q''
       = Inr (client, queueUrl (entry_instance (built_entry quiet (Some \<lparr>abort = None\<rparr>) []
                                                   (declared ''Q'' 1) q_handler)))"
    "(purgeQueue q_registry ''Q'' :: error + (nat, unit) promise)
       = Inr (Awaits (SqsSend client
                (PurgeQueueCommand
                   (queueUrl (entry_instance (built_entry quiet (Some \<lparr>abort = None\<rparr>) []
                                                (declared ''Q'' 1) q_handler))))))"
    by blast
  with inst ok c p show ?thesis by simp
qed

subsection \<open>The stop pass\<close>

lemma takeWhile_all_before:
  assumes "k < length xs" "\<forall>x\<in>set (take k xs). P x" "\<not> P (xs ! k)"
  shows "takeWhile P xs = take k xs" "dropWhile P xs = xs ! k # drop (Suc k) xs"
proof -
  have split: "xs = take k xs @ xs ! k # drop (Suc k) xs"
    using assms(1) by (rule id_take_nth_drop)
  show "takeWhile P xs = take k xs"
    by (subst split) (simp add: assms(2,3) takeWhile_append2)
  show "dropWhile P xs = xs ! k # drop (Suc k) xs"
    by (subst split) (simp add: assms(2,3) dropWhile_append2)
qed

text \<open>
  C1, as the specification states it, fails: the stop pass does not go on after a stop
  call that throws. With the two consumers of \<open>two_pollers\<close> and a library whose stop
  call throws on the first, \<open>onModuleDestroy\<close> throws that error after the one stop
  call, and the second consumer's stop is never called.
\<close>

theorem stop_pass_counterexample:
  "stop_throws first_fails (poller 1 ''https://sqs/a'') None = Some (Thrown ''stop failed'')
   \<and> fst (onModuleDestroy first_fails two_pollers) = Some (Thrown ''stop failed'')
   \<and> calls (snd (onModuleDestroy first_fails two_pollers))
       = [Consumer_stop (poller 1 ''https://sqs/a'') None]
   \<and> Consumer_stop (poller 2 ''https://sqs/b'') None
       \<notin> set (calls (snd (onModuleDestroy first_fails two_pollers)))"
  by (simp add: run_defs example_defs split del: if_split cong: if_weak_cong)

text \<open>
  C1, amended. \<open>onModuleDestroy\<close> calls stop on the consumers in registration order,
  each with its stored stop options. When no stop call throws, every consumer is stopped
  and the pass returns normally. When the stop call of the consumer at position k is the
  first to throw, the pass has called stop on the consumers up to and including k, throws
  that error, and calls stop on no later consumer.
\<close>

theorem stop_pass_ends_at_first_throw:
  "((\<forall>c\<in>set (Map_values (consumers st)). stop_throws ev (entry_instance c) (stopOptions c) = None)
      \<longrightarrow> onModuleDestroy ev st = (None, emit (map stop_call (Map_values (consumers st))) st))
   \<and> (\<forall>k e. k < length (Map_values (consumers st))
         \<and> (\<forall>c\<in>set (take k (Map_values (consumers st))).
               stop_throws ev (entry_instance c) (stopOptions c) = None)
         \<and> stop_throws ev (entry_instance (Map_values (consumers st) ! k))
               (stopOptions (Map_values (consumers st) ! k)) = Some e
         \<longrightarrow> onModuleDestroy ev st
               = (Some e, emit (map stop_call (take (Suc k) (Map_values (consumers st)))) st))"
proof -
  define vs where "vs = Map_values (consumers st)"
  define quiet where "quiet = (\<lambda>c::SqsConsumerMapValues. stop_throws ev (entry_instance c) (stopOptions c) = None)"
  have run: "onModuleDestroy ev st =
           (case dropWhile quiet vs of [] \<Rightarrow> None
            | c # rest \<Rightarrow> stop_throws ev (entry_instance c) (stopOptions c),
            emit (map stop_call (take (Suc (length (takeWhile quiet vs))) vs)) st)"
    unfolding onModuleDestroy_def vs_def quiet_def
    by (rule forEach_logging [OF stop_callback_logs])
  have all: "onModuleDestroy ev st = (None, emit (map stop_call vs) st)" if "\<forall>c\<in>set vs. quiet c"
  proof -
    from that have "takeWhile quiet vs = vs" "dropWhile quiet vs = []" by simp_all
    with run show ?thesis by simp
  qed
  have first: "onModuleDestroy ev st = (Some e, emit (map stop_call (take (Suc k) vs)) st)"
    if "k < length vs" "\<forall>c\<in>set (take k vs). quiet c"
      "stop_throws ev (entry_instance (vs ! k)) (stopOptions (vs ! k)) = Some e" for k e
  proof -
    from that(3) have "\<not> quiet (vs ! k)" by (simp add: quiet_def)
    from takeWhile_all_before [OF that(1,2) this] run that(1,3) show ?thesis by simp
  qed
  from all first show ?thesis
    unfolding vs_def quiet_def by blast
qed

theorem stop_pass_ends_at_first_throw_witness:
  "list_all (\<lambda>c. stop_throws quiet (entry_instance c) (stopOptions c) = None)
     (Map_values (consumers two_pollers))
   \<and> onModuleDestroy quiet two_pollers
       = (None, emit [Consumer_stop (poller 1 ''https://sqs/a'') None,
                      Consumer_stop (poller 2 ''https://sqs/b'') None] two_pollers)
   \<and> (0::nat) < length (Map_values (consumers two_pollers))
   \<and> stop_throws first_fails (entry_instance (Map_values (consumers two_pollers) ! 0))
         (stopOptions (Map_values (consumers two_pollers) ! 0)) = Some (Thrown ''stop failed'')
   \<and> onModuleDestroy first_fails two_pollers
       = (Some (Thrown ''stop failed''),
          emit [Consumer_stop (poller 1 ''https://sqs/a'') None] two_pollers)"
proof -
  have all_quiet: "\<forall>c\<in>set (Map_values (consumers two_pollers)).
                     stop_throws quiet (entry_instance c) (stopOptions c) = None"
    by (simp add: quiet_def)
  have k: "(0::nat) < length (Map_values (consumers two_pollers))"
    by (simp add: two_pollers_def Map_values_def)
  have none_before: "\<forall>c\<in>set (take 0 (Map_values (consumers two_pollers))).
                       stop_throws first_fails (entry_instance c) (stopOptions c) = None"
    by simp
  have throws: "stop_throws first_fails (entry_instance (Map_values (consumers two_pollers) ! 0))
         (stopOptions (Map_values (consumers two_pollers) ! 0)) = Some (Thrown ''stop failed'')"
    by (simp add: two_pollers_def Map_values_def first_fails_def poller_def)
  have vs: "map stop_call (Map_values (consumers two_pollers))
              = [Consumer_stop (poller 1 ''https://sqs/a'') None,
                 Consumer_stop (poller 2 ''https://sqs/b'') None]"
    by (simp add: two_pollers_def Map_values_def stop_call_def)
  from stop_pass_ends_at_first_throw [of two_pollers quiet] all_quiet vs
  have a: "onModuleDestroy quiet two_pollers
       = (None, emit [Consumer_stop (poller 1 ''https://sqs/a'') None,
                      Consumer_stop (poller 2 ''https://sqs/b'') None] two_pollers)"
    by simp
  from stop_pass_ends_at_first_throw [of two_pollers first_fails] k none_before throws
  have "onModuleDestroy first_fails two_pollers
       = (Some (Thrown ''stop failed''),
          emit (map stop_call (take (Suc 0) (Map_values (consumers two_pollers)))) two_pollers)"
    by blast
  then have b: "onModuleDestroy first_fails two_pollers
       = (Some (Thrown ''stop failed''),
          emit [Consumer_stop (poller 1 ''https://sqs/a'') None] two_pollers)"
    by (simp add: two_pollers_def Map_values_def stop_call_def)
  from all_quiet a k throws b show ?thesis by (simp add: list_all_iff)
qed

end
